theory Spec2Isabelle
  imports Main "HOL-Library.Word" "HOL-Library.Monad_Syntax"
begin

section \<open>Bytes, buffers and the byte codec\<close>

text \<open>
  A byte of a buffer is an 8-bit word; a buffer is the list of its bytes.  A C string
  argument (\<open>char*\<close>) is the list of the bytes before its terminating NUL.  An
  \<open>int32_t\<close> is a 32-bit word, read as two's complement with \<open>sint\<close>.

  Every access to a buffer is checked against the buffer's extent: an access outside it
  is undefined behaviour in C and \<open>None\<close> here.
\<close>

type_synonym byte = "8 word"

definition chr :: "char \<Rightarrow> byte" where
  "chr c = of_nat (of_char c)"

definition ascii :: "string \<Rightarrow> byte list" where
  "ascii s = map chr s"

definition ALIGNMENT_SIZE :: nat where
  "ALIGNMENT_SIZE = 512"

definition MISC_LENGTH :: nat where
  "MISC_LENGTH = 128"

definition MAX_NUMBER_OF_COLUMNS :: nat where
  "MAX_NUMBER_OF_COLUMNS = 8"

text \<open>
  Modelled from the spec: \<open>pgvictoria_get_aligned_size\<close> (utils.c is not part of the
  sources at hand).  Section 4.2: the payload region is aligned to \<open>ALIGNMENT_SIZE\<close>,
  the requested size is rounded up.
\<close>

definition pgvictoria_get_aligned_size :: "nat \<Rightarrow> nat" where
  "pgvictoria_get_aligned_size sz =
     (sz div ALIGNMENT_SIZE + (if sz mod ALIGNMENT_SIZE \<noteq> 0 then 1 else 0)) * ALIGNMENT_SIZE"

text \<open>
  Modelled from the spec: the byte codec \<open>pgvictoria_read_byte\<close>,
  \<open>pgvictoria_read_int16\<close>, \<open>pgvictoria_read_int32\<close>, \<open>pgvictoria_read_string\<close>,
  \<open>pgvictoria_write_byte\<close>, \<open>pgvictoria_write_int32\<close> and
  \<open>pgvictoria_write_string\<close> (declared in utils.h, defined in the absent utils.c).
  Section 4.1: multi-byte integers are big-endian on the wire; \<open>read_string\<close> returns
  the NUL-terminated string at the cursor; \<open>write_string\<close> writes the bytes of the
  string and a trailing NUL.
\<close>

definition be16 :: "16 word \<Rightarrow> byte list" where
  "be16 w = [of_nat (unat w div 256), of_nat (unat w mod 256)]"

definition be32 :: "32 word \<Rightarrow> byte list" where
  "be32 w = [of_nat (unat w div 16777216), of_nat (unat w div 65536 mod 256),
             of_nat (unat w div 256 mod 256), of_nat (unat w mod 256)]"

definition write_bytes :: "byte list \<Rightarrow> nat \<Rightarrow> byte list \<Rightarrow> byte list option" where
  "write_bytes d off bs =
     (if off + length bs \<le> length d
      then Some (take off d @ bs @ drop (off + length bs) d)
      else None)"

definition pgvictoria_write_byte :: "byte list \<Rightarrow> nat \<Rightarrow> byte \<Rightarrow> byte list option" where
  "pgvictoria_write_byte d off b = write_bytes d off [b]"

definition pgvictoria_write_int32 :: "byte list \<Rightarrow> nat \<Rightarrow> 32 word \<Rightarrow> byte list option" where
  "pgvictoria_write_int32 d off i = write_bytes d off (be32 i)"

definition pgvictoria_write_string :: "byte list \<Rightarrow> nat \<Rightarrow> byte list \<Rightarrow> byte list option" where
  "pgvictoria_write_string d off s = write_bytes d off (s @ [0])"

definition read_bytes :: "byte list \<Rightarrow> nat \<Rightarrow> nat \<Rightarrow> byte list option" where
  "read_bytes d off n =
     (if off + n \<le> length d then Some (take n (drop off d)) else None)"

definition pgvictoria_read_byte :: "byte list \<Rightarrow> nat \<Rightarrow> byte option" where
  "pgvictoria_read_byte d off = (if off < length d then Some (d ! off) else None)"

definition be_value :: "byte list \<Rightarrow> nat" where
  "be_value bs = foldl (\<lambda>a b. a * 256 + unat b) 0 bs"

definition pgvictoria_read_int16 :: "byte list \<Rightarrow> nat \<Rightarrow> 16 word option" where
  "pgvictoria_read_int16 d off = map_option (\<lambda>bs. of_nat (be_value bs)) (read_bytes d off 2)"

definition pgvictoria_read_int32 :: "byte list \<Rightarrow> nat \<Rightarrow> 32 word option" where
  "pgvictoria_read_int32 d off = map_option (\<lambda>bs. of_nat (be_value bs)) (read_bytes d off 4)"

definition pgvictoria_read_string :: "byte list \<Rightarrow> nat \<Rightarrow> byte list option" where
  "pgvictoria_read_string d off =
     (if 0 \<in> set (drop off d) then Some (takeWhile (\<lambda>b. b \<noteq> 0) (drop off d)) else None)"

section \<open>Message buffers (message.c)\<close>

text \<open>
  \<open>struct message\<close>: the kind, the length and the payload region.  \<open>allocate_message\<close>
  obtains a region of the aligned size, zeroes its first \<open>size\<close> bytes and sets
  \<open>length\<close> to \<open>size\<close>.  The bytes between \<open>size\<close> and the aligned size are
  uninitialised in C; they are never sent and are 0 here.  Allocation is taken to succeed.
  What reaches the wire is the first \<open>length\<close> bytes of the region (\<open>wire\<close>).
\<close>

record message =
  kind :: byte
  mlength :: nat
  data :: "byte list"

definition allocate_message :: "nat \<Rightarrow> message" where
  "allocate_message sz =
     \<lparr>kind = 0, mlength = sz, data = replicate (pgvictoria_get_aligned_size sz) 0\<rparr>"

definition wire :: "message \<Rightarrow> byte list" where
  "wire m = take (mlength m) (data m)"

subsection \<open>Message constructors\<close>

definition pgvictoria_create_auth_scram256_response :: "byte list \<Rightarrow> message option" where
  "pgvictoria_create_auth_scram256_response nounce =
     (let sz = 1 + 4 + 13 + 4 + 9 + length nounce;
          m = allocate_message sz
      in do {
        d \<leftarrow> pgvictoria_write_byte (data m) 0 (chr CHR ''p'');
        d \<leftarrow> pgvictoria_write_int32 d 1 (of_nat (sz - 1));
        d \<leftarrow> pgvictoria_write_string d 5 (ascii ''SCRAM-SHA-256'');
        d \<leftarrow> pgvictoria_write_string d 22 (ascii '' n,,n=,r='');
        d \<leftarrow> pgvictoria_write_string d 31 nounce;
        Some (m\<lparr>kind := chr CHR ''p'', data := d\<rparr>)
      })"

definition pgvictoria_create_startup_message :: "byte list \<Rightarrow> byte list \<Rightarrow> bool \<Rightarrow> message option" where
  "pgvictoria_create_startup_message username database replication =
     (let us = length username;
          ds = length database;
          sz = 4 + 4 + 4 + 1 + us + 1 + 8 + 1 + ds + 1 + 17 + 9 + 1
                 + (if replication then 14 else 0);
          m = allocate_message sz
      in do {
        d \<leftarrow> pgvictoria_write_int32 (data m) 0 (of_nat sz);
        d \<leftarrow> pgvictoria_write_int32 d 4 196608;
        d \<leftarrow> pgvictoria_write_string d 8 (ascii ''user'');
        d \<leftarrow> pgvictoria_write_string d 13 username;
        d \<leftarrow> pgvictoria_write_string d (13 + us + 1) (ascii ''database'');
        d \<leftarrow> pgvictoria_write_string d (13 + us + 1 + 9) database;
        d \<leftarrow> pgvictoria_write_string d (13 + us + 1 + 9 + ds + 1) (ascii ''application_name'');
        d \<leftarrow> pgvictoria_write_string d (13 + us + 1 + 9 + ds + 1 + 17) (ascii ''pgvictoria'');
        d \<leftarrow> (if replication
              then do {
                d \<leftarrow> pgvictoria_write_string d (13 + us + 1 + 9 + ds + 1 + 17 + 9) (ascii ''replication'');
                pgvictoria_write_string d (13 + us + 1 + 9 + ds + 1 + 17 + 9 + 12) (ascii ''1'')
              }
              else Some d);
        Some (m\<lparr>kind := 0, data := d\<rparr>)
      })"


section \<open>Frame scan and frame extraction\<close>

text \<open>
  \<open>offset += pgvictoria_read_int32(...)\<close> adds an \<open>int32_t\<close> to a \<open>size_t\<close>: the
  value is sign-extended and the sum wraps at the width of \<open>size_t\<close> (64 bits on the
  tested platforms).
\<close>

definition size_t_add :: "nat \<Rightarrow> 32 word \<Rightarrow> nat" where
  "size_t_add off i = nat ((int off + sint i) mod 2 ^ 64)"

text \<open>
  Modelled from the spec: \<open>pgvictoria_extract_message_offset\<close> (declared in utils.h:
  "Extract a message based on an offset", returning "the next offset"; defined in the
  absent utils.c).  Section 3 and 4.5: the accumulator supports extract-frame-at-offset,
  and a frame at an offset spans \<open>1 + read_i32(+1)\<close> bytes.  The extracted message owns
  a copy of exactly these bytes.  A length field below \<open>-1\<close> asks for a copy of negative
  size, which is undefined.
\<close>

definition pgvictoria_extract_message_offset :: "nat \<Rightarrow> byte list \<Rightarrow> (nat \<times> message) option" where
  "pgvictoria_extract_message_offset offset d =
     do {
       t \<leftarrow> pgvictoria_read_byte d offset;
       l \<leftarrow> pgvictoria_read_int32 d (offset + 1);
       if sint l < - 1 then None
       else do {
         bs \<leftarrow> read_bytes d offset (nat (1 + sint l));
         Some (size_t_add (offset + 1) l, \<lparr>kind = t, mlength = nat (1 + sint l), data = bs\<rparr>)
       }
     }"

text \<open>
  \<open>pgvictoria_has_message\<close> (message.c).  The loop may fail to advance (a length field
  of \<open>-1\<close>), so it is a partial function: the outer \<open>None\<close> is a scan that never
  returns, \<open>Some None\<close> a scan that leaves the buffer, \<open>Some (Some b)\<close> the returned
  value.  For the tag \<open>E\<close> the matching frame is extracted for the error log
  (\<open>pgvictoria_log_error_response_message\<close>, which only writes to the log).
\<close>

partial_function (option) has_message_loop ::
  "byte \<Rightarrow> byte list \<Rightarrow> nat \<Rightarrow> nat \<Rightarrow> bool option option" where
  "has_message_loop type d data_size offset =
     (if offset < data_size then
        (case pgvictoria_read_byte d offset of
           None \<Rightarrow> Some None
         | Some t \<Rightarrow>
             if type = t then
               (if type = chr CHR ''E'' then
                  (case pgvictoria_extract_message_offset offset d of
                     None \<Rightarrow> Some None
                   | Some msg \<Rightarrow> Some (Some True))
                else Some (Some True))
             else
               (case pgvictoria_read_int32 d (offset + 1) of
                  None \<Rightarrow> Some None
                | Some l \<Rightarrow> has_message_loop type d data_size (size_t_add (offset + 1) l)))
      else Some (Some False))"

definition pgvictoria_has_message :: "byte \<Rightarrow> byte list \<Rightarrow> nat \<Rightarrow> bool option option" where
  "pgvictoria_has_message type d data_size = has_message_loop type d data_size 0"

text \<open>
  Modelled from the spec: \<open>pgvictoria_extract_message_from_data\<close> (declared in utils.h:
  "Extract a message based on a type", "0 upon success, otherwise 1"; defined in the
  absent utils.c).  It walks the buffer as the scan of section 4.5 does and copies the
  first frame with the tag.  \<open>Inl 1\<close> is the return value 1, \<open>Inr msg\<close> the return value
  0 with the extracted message.
\<close>

partial_function (option) extract_message_from_data_loop ::
  "byte \<Rightarrow> byte list \<Rightarrow> nat \<Rightarrow> nat \<Rightarrow> (int + message) option option" where
  "extract_message_from_data_loop type d data_size offset =
     (if offset < data_size then
        (case pgvictoria_read_byte d offset of
           None \<Rightarrow> Some None
         | Some t \<Rightarrow>
             if type = t then
               (case pgvictoria_extract_message_offset offset d of
                  None \<Rightarrow> Some None
                | Some (next_offset, msg) \<Rightarrow> Some (Some (Inr msg)))
             else
               (case pgvictoria_read_int32 d (offset + 1) of
                  None \<Rightarrow> Some None
                | Some l \<Rightarrow>
                    extract_message_from_data_loop type d data_size (size_t_add (offset + 1) l)))
      else Some (Some (Inl 1)))"

definition pgvictoria_extract_message_from_data ::
  "byte \<Rightarrow> byte list \<Rightarrow> nat \<Rightarrow> (int + message) option option" where
  "pgvictoria_extract_message_from_data type d data_size =
     extract_message_from_data_loop type d data_size 0"

section \<open>Query executor (message.c)\<close>

text \<open>
  A tuple is the array of its cells; a cell is \<open>NULL\<close> (\<open>None\<close>) or a buffer of
  \<open>length + 1\<close> bytes holding the value and a terminating NUL.  The linked list of
  tuples is the list of the tuples in link order.

  Modelled from the spec: \<open>struct query_response\<close> (message.h is not part of the sources
  at hand).  Section 3: \<open>number_of_columns\<close>, the column names in order, the tuples and
  \<open>is_command_complete\<close>.  The executor copies \<open>strlen(name)\<close> bytes of the column name
  into \<open>names[i]\<close> of the zeroed response; \<open>names\<close> is taken as a table of
  \<open>MAX_NUMBER_OF_COLUMNS\<close> rows of \<open>MISC_LENGTH\<close> bytes (the constants of pgvictoria.h),
  each row read as a C string.
\<close>

type_synonym tuple = "byte list option list"

record query_response =
  number_of_columns :: int
  names :: "byte list list"
  tuples :: "tuple list"
  is_command_complete :: bool

fun D_cells :: "nat \<Rightarrow> byte list \<Rightarrow> nat \<Rightarrow> tuple option" where
  "D_cells 0 d offset = Some []"
| "D_cells (Suc k) d offset =
     do {
       l \<leftarrow> pgvictoria_read_int32 d offset;
       if sint l > 0 then
         do {
           bs \<leftarrow> read_bytes d (offset + 4) (nat (sint l));
           rest \<leftarrow> D_cells k d (offset + 4 + nat (sint l));
           Some (Some (bs @ [0]) # rest)
         }
       else
         do {
           rest \<leftarrow> D_cells k d (offset + 4);
           Some (None # rest)
         }
     }"

definition create_D_tuple :: "int \<Rightarrow> message \<Rightarrow> tuple option" where
  "create_D_tuple cols msg = D_cells (nat cols) (data msg) 7"

definition create_C_tuple :: "message \<Rightarrow> tuple option" where
  "create_C_tuple msg =
     do {
       l \<leftarrow> pgvictoria_read_int32 (data msg) 1;
       if sint l - 5 > 0 then
         do {
           bs \<leftarrow> read_bytes (data msg) 5 (nat (sint l - 5));
           Some [Some (bs @ [0])]
         }
       else Some [None]
     }"

definition get_number_of_columns :: "message \<Rightarrow> int option" where
  "get_number_of_columns msg =
     (if kind msg = chr CHR ''T''
      then map_option sint (pgvictoria_read_int16 (data msg) 5)
      else Some 0)"

fun skip_columns :: "nat \<Rightarrow> byte list \<Rightarrow> nat \<Rightarrow> nat option" where
  "skip_columns 0 d offset = Some offset"
| "skip_columns (Suc k) d offset =
     do {
       tmp \<leftarrow> pgvictoria_read_string d offset;
       skip_columns k d (offset + (length tmp + 1) + 4 + 2 + 4 + 2 + 4 + 2)
     }"

definition get_column_name :: "message \<Rightarrow> int \<Rightarrow> (int + byte list) option" where
  "get_column_name msg index =
     (if kind msg = chr CHR ''T'' then
        do {
          cols \<leftarrow> pgvictoria_read_int16 (data msg) 5;
          if index < sint cols then
            do {
              offset \<leftarrow> skip_columns (nat index) (data msg) 7;
              tmp \<leftarrow> pgvictoria_read_string (data msg) offset;
              Some (Inr tmp)
            }
          else Some (Inl 1)
        }
      else Some (Inl 1))"

text \<open>
  The loop that copies the column names: \<open>memcpy(&r->names[i][0], name, strlen(name))\<close>
  for \<open>i\<close> from 0 to the column count of the \<open>T\<close> frame.  Nothing in the loop compares
  \<open>i\<close> with the rows of the table or the length of the name with the length of a row.
  A copy into a row that the table does not have, or of a name that leaves no room for
  the terminating NUL of the row, is \<open>None\<close>.
\<close>

fun copy_names :: "message \<Rightarrow> nat \<Rightarrow> nat \<Rightarrow> byte list list \<Rightarrow> (int + byte list list) option" where
  "copy_names rmsg i 0 ns = Some (Inr ns)"
| "copy_names rmsg i (Suc k) ns =
     (case get_column_name rmsg (int i) of
        None \<Rightarrow> None
      | Some (Inl e) \<Rightarrow> Some (Inl e)
      | Some (Inr name) \<Rightarrow>
          if i < MAX_NUMBER_OF_COLUMNS \<and> length name < MISC_LENGTH
          then copy_names rmsg (Suc i) k (ns[i := name])
          else None)"

partial_function (option) collect_D_tuples ::
  "int \<Rightarrow> byte list \<Rightarrow> nat \<Rightarrow> nat \<Rightarrow> tuple list \<Rightarrow> tuple list option option" where
  "collect_D_tuples cols d data_size offset ts =
     (if offset < data_size then
        (case pgvictoria_extract_message_offset offset d of
           None \<Rightarrow> Some None
         | Some (next_offset, msg) \<Rightarrow>
             if kind msg = chr CHR ''D'' then
               (case create_D_tuple cols msg of
                  None \<Rightarrow> Some None
                | Some dtuple \<Rightarrow> collect_D_tuples cols d data_size next_offset (ts @ [dtuple]))
             else collect_D_tuples cols d data_size next_offset ts)
      else Some (Some ts))"

text \<open>
  The transport: the status of the write of the request, and the results of the
  successive calls of \<open>pgvictoria_read_block_message\<close>.  A read that has nothing more to
  deliver blocks, so the loop over an exhausted script does not return.
\<close>

datatype read_result = MESSAGE_STATUS_OK "byte list" | MESSAGE_STATUS_ZERO | MESSAGE_STATUS_ERROR

fun read_replies :: "byte list \<Rightarrow> read_result list \<Rightarrow> (int + byte list) option option" where
  "read_replies d [] = None"
| "read_replies d (MESSAGE_STATUS_OK reply # rs) =
     (case pgvictoria_has_message (chr CHR ''Z'') (d @ reply) (length (d @ reply)) of
        None \<Rightarrow> None
      | Some None \<Rightarrow> Some None
      | Some (Some z) \<Rightarrow> if z then Some (Some (Inr (d @ reply))) else read_replies (d @ reply) rs)"
| "read_replies d (MESSAGE_STATUS_ZERO # rs) = read_replies d rs"
| "read_replies d (MESSAGE_STATUS_ERROR # rs) = Some (Some (Inl 1))"

text \<open>
  The classification of the accumulated stream: the part of \<open>pgvictoria_query_execute\<close>
  after the read loop.  \<open>Inl 1\<close> is the error return, \<open>Inr r\<close> the return value 0 with
  the response \<open>r\<close>.
\<close>

definition empty_response :: query_response where
  "empty_response =
     \<lparr>number_of_columns = 0, names = replicate MAX_NUMBER_OF_COLUMNS [], tuples = [],
      is_command_complete = False\<rparr>"

definition row_description_response :: "byte list \<Rightarrow> nat \<Rightarrow> (int + query_response) option option" where
  "row_description_response d data_size =
     (case pgvictoria_extract_message_from_data (chr CHR ''T'') d data_size of
        None \<Rightarrow> None
      | Some None \<Rightarrow> Some None
      | Some (Some (Inl e)) \<Rightarrow> Some (Some (Inl 1))
      | Some (Some (Inr rmsg)) \<Rightarrow>
          (case get_number_of_columns rmsg of
             None \<Rightarrow> Some None
           | Some cols \<Rightarrow>
               (case copy_names rmsg 0 (nat cols) (names empty_response) of
                  None \<Rightarrow> Some None
                | Some (Inl e) \<Rightarrow> Some (Some (Inl 1))
                | Some (Inr ns) \<Rightarrow>
                    (case collect_D_tuples cols d data_size 0 [] of
                       None \<Rightarrow> None
                     | Some None \<Rightarrow> Some None
                     | Some (Some ts) \<Rightarrow>
                         Some (Some (Inr (empty_response
                           \<lparr>number_of_columns := cols, names := ns, tuples := ts,
                            is_command_complete := False\<rparr>)))))))"

definition command_complete_response :: "byte list \<Rightarrow> nat \<Rightarrow> (int + query_response) option option" where
  "command_complete_response d data_size =
     (case pgvictoria_extract_message_from_data (chr CHR ''C'') d data_size of
        None \<Rightarrow> None
      | Some None \<Rightarrow> Some None
      | Some (Some (Inl e)) \<Rightarrow> Some (Some (Inl 1))
      | Some (Some (Inr rmsg)) \<Rightarrow>
          (case create_C_tuple rmsg of
             None \<Rightarrow> Some None
           | Some ctuple \<Rightarrow>
               Some (Some (Inr (empty_response
                 \<lparr>number_of_columns := 1, tuples := [ctuple], is_command_complete := True\<rparr>)))))"

definition classify_replies :: "byte list \<Rightarrow> nat \<Rightarrow> (int + query_response) option option" where
  "classify_replies d data_size =
     (case pgvictoria_has_message (chr CHR ''E'') d data_size of
        None \<Rightarrow> None
      | Some None \<Rightarrow> Some None
      | Some (Some e) \<Rightarrow>
          if e then Some (Some (Inl 1))
          else
            (case pgvictoria_has_message (chr CHR ''T'') d data_size of
               None \<Rightarrow> None
             | Some None \<Rightarrow> Some None
             | Some (Some t) \<Rightarrow>
                 if t then row_description_response d data_size
                 else
                   (case pgvictoria_has_message (chr CHR ''C'') d data_size of
                      None \<Rightarrow> None
                    | Some None \<Rightarrow> Some None
                    | Some (Some c) \<Rightarrow>
                        if c then command_complete_response d data_size
                        else Some (Some (Inl 1)))))"

definition pgvictoria_query_execute ::
  "bool \<Rightarrow> read_result list \<Rightarrow> (int + query_response) option option" where
  "pgvictoria_query_execute write_ok reads =
     (if \<not> write_ok then Some (Some (Inl 1))
      else
        (case read_replies [] reads of
           None \<Rightarrow> None
         | Some None \<Rightarrow> Some None
         | Some (Some (Inl e)) \<Rightarrow> Some (Some (Inl 1))
         | Some (Some (Inr d)) \<Rightarrow> classify_replies d (length d)))"

section \<open>Reply streams of well-formed frames\<close>

text \<open>
  The wire format of section 4.4 and of the glossary: a tagged frame is the tag byte, the
  big-endian 32-bit length (which counts itself and the payload, not the tag) and the
  payload.  A frame is well formed when its length fits the signed 32-bit field.
\<close>

type_synonym frame = "byte \<times> byte list"

definition frame_bytes :: "frame \<Rightarrow> byte list" where
  "frame_bytes f = fst f # be32 (of_nat (4 + length (snd f))) @ snd f"

definition well_formed_frame :: "frame \<Rightarrow> bool" where
  "well_formed_frame f \<longleftrightarrow> 4 + length (snd f) < 2 ^ 31"

definition stream_bytes :: "frame list \<Rightarrow> byte list" where
  "stream_bytes fs = concat (map frame_bytes fs)"

section \<open>Backend messages of the simple query protocol\<close>

text \<open>
  The replies of section 4.4, as values: a RowDescription carries its columns (the name
  and the 18 bytes of table oid, attribute number, type oid, type size, type modifier and
  format code), a DataRow its cells (\<open>None\<close> for a length of \<open>-1\<close>, the value otherwise),
  a CommandComplete its tag string, a ReadyForQuery its status byte.  \<open>message_frame\<close> is
  the payload layout the section gives for each of them.
\<close>

datatype backend_message =
    RowDescription "(byte list \<times> byte list) list"
  | DataRow "byte list option list"
  | CommandComplete "byte list"
  | ReadyForQuery byte
  | Other_message byte "byte list"

fun column_bytes :: "byte list \<times> byte list \<Rightarrow> byte list" where
  "column_bytes (name, desc) = name @ [0] @ desc"

fun cell_bytes :: "byte list option \<Rightarrow> byte list" where
  "cell_bytes None = be32 (- 1)"
| "cell_bytes (Some v) = be32 (of_nat (length v)) @ v"

fun message_frame :: "backend_message \<Rightarrow> frame" where
  "message_frame (RowDescription cols) =
     (chr CHR ''T'', be16 (of_nat (length cols)) @ concat (map column_bytes cols))"
| "message_frame (DataRow cells) =
     (chr CHR ''D'', be16 (of_nat (length cells)) @ concat (map cell_bytes cells))"
| "message_frame (CommandComplete tag) = (chr CHR ''C'', tag @ [0])"
| "message_frame (ReadyForQuery status) = (chr CHR ''Z'', [status])"
| "message_frame (Other_message t payload) = (t, payload)"

fun well_formed_column :: "byte list \<times> byte list \<Rightarrow> bool" where
  "well_formed_column (name, desc) \<longleftrightarrow> 0 \<notin> set name \<and> length desc = 18"

fun well_formed_cell :: "byte list option \<Rightarrow> bool" where
  "well_formed_cell None \<longleftrightarrow> True"
| "well_formed_cell (Some v) \<longleftrightarrow> length v < 2 ^ 31"

fun well_formed_message :: "backend_message \<Rightarrow> bool" where
  "well_formed_message (RowDescription cols) \<longleftrightarrow>
     length cols < 2 ^ 15 \<and> list_all well_formed_column cols
     \<and> well_formed_frame (message_frame (RowDescription cols))"
| "well_formed_message (DataRow cells) \<longleftrightarrow>
     list_all well_formed_cell cells \<and> well_formed_frame (message_frame (DataRow cells))"
| "well_formed_message (CommandComplete tag) \<longleftrightarrow>
     well_formed_frame (message_frame (CommandComplete tag))"
| "well_formed_message (ReadyForQuery status) \<longleftrightarrow> True"
| "well_formed_message (Other_message t payload) \<longleftrightarrow>
     t \<noteq> chr CHR ''T'' \<and> t \<noteq> chr CHR ''D'' \<and> t \<noteq> chr CHR ''C''
     \<and> well_formed_frame (t, payload)"

definition reply_stream :: "backend_message list \<Rightarrow> byte list" where
  "reply_stream msgs = stream_bytes (map message_frame msgs)"

definition message_tag :: "backend_message \<Rightarrow> byte" where
  "message_tag m = fst (message_frame m)"

fun first_row_description :: "backend_message list \<Rightarrow> (byte list \<times> byte list) list option" where
  "first_row_description [] = None"
| "first_row_description (RowDescription cols # ms) = Some cols"
| "first_row_description (m # ms) = first_row_description ms"

fun first_command_complete :: "backend_message list \<Rightarrow> byte list option" where
  "first_command_complete [] = None"
| "first_command_complete (CommandComplete tag # ms) = Some tag"
| "first_command_complete (m # ms) = first_command_complete ms"

fun data_rows :: "backend_message list \<Rightarrow> byte list option list list" where
  "data_rows [] = []"
| "data_rows (DataRow cells # ms) = cells # data_rows ms"
| "data_rows (m # ms) = data_rows ms"

text \<open>
  The cell the executor builds for a cell of a DataRow: \<open>NULL\<close> unless the length is
  positive, the value followed by a NUL otherwise.
\<close>

fun built_cell :: "byte list option \<Rightarrow> byte list option" where
  "built_cell None = None"
| "built_cell (Some v) = (if v = [] then None else Some (v @ [0]))"


text \<open>
  A reply stream as the transport delivers it: in pieces, each a number of reads that
  have nothing to deliver followed by a read that delivers the next frames.
\<close>

definition chunk_reads :: "nat \<times> backend_message list \<Rightarrow> read_result list" where
  "chunk_reads chunk =
     replicate (fst chunk) MESSAGE_STATUS_ZERO @ [MESSAGE_STATUS_OK (reply_stream (snd chunk))]"

definition reads_of :: "(nat \<times> backend_message list) list \<Rightarrow> read_result list" where
  "reads_of chunks = concat (map chunk_reads chunks)"

definition delivered :: "(nat \<times> backend_message list) list \<Rightarrow> backend_message list" where
  "delivered chunks = concat (map snd chunks)"

section \<open>Symmetric encryption (aes.c)\<close>

text \<open>
  The cipher library (OpenSSL's EVP interface) is outside the repository.  It is a
  parameter of the model: the lengths of a cipher, the key derivation
  \<open>EVP_BytesToKey\<close> (with SHA-1, no salt and one iteration, as the source calls it), and
  a cipher context with its three operations.  \<open>None\<close> is the failure return of the
  library call.  The type \<open>'ctx\<close> is the state of a cipher context.
\<close>

datatype evp_cipher =
    EVP_aes_256_cbc | EVP_aes_192_cbc | EVP_aes_128_cbc
  | EVP_aes_256_ctr | EVP_aes_192_ctr | EVP_aes_128_ctr

record 'ctx evp =
  EVP_CIPHER_key_length :: "evp_cipher \<Rightarrow> nat"
  EVP_CIPHER_iv_length :: "evp_cipher \<Rightarrow> nat"
  EVP_CIPHER_block_size :: "evp_cipher \<Rightarrow> nat"
  EVP_BytesToKey :: "evp_cipher \<Rightarrow> byte list \<Rightarrow> (byte list \<times> byte list) option"
  EVP_CipherInit_ex :: "evp_cipher \<Rightarrow> byte list \<Rightarrow> byte list \<Rightarrow> bool \<Rightarrow> 'ctx option"
  EVP_CipherUpdate :: "'ctx \<Rightarrow> byte list \<Rightarrow> ('ctx \<times> byte list) option"
  EVP_CipherFinal_ex :: "'ctx \<Rightarrow> byte list option"

definition ENCRYPTION_AES_256_CBC :: int where "ENCRYPTION_AES_256_CBC = 1"
definition ENCRYPTION_AES_192_CBC :: int where "ENCRYPTION_AES_192_CBC = 2"
definition ENCRYPTION_AES_128_CBC :: int where "ENCRYPTION_AES_128_CBC = 3"
definition ENCRYPTION_AES_256_CTR :: int where "ENCRYPTION_AES_256_CTR = 4"
definition ENCRYPTION_AES_192_CTR :: int where "ENCRYPTION_AES_192_CTR = 5"
definition ENCRYPTION_AES_128_CTR :: int where "ENCRYPTION_AES_128_CTR = 6"

definition EVP_MAX_KEY_LENGTH :: nat where "EVP_MAX_KEY_LENGTH = 64"
definition EVP_MAX_IV_LENGTH :: nat where "EVP_MAX_IV_LENGTH = 16"
definition ENC_BUF_SIZE :: nat where "ENC_BUF_SIZE = 1024 * 1024"

definition get_cipher :: "int \<Rightarrow> evp_cipher" where
  "get_cipher mode =
     (if mode = ENCRYPTION_AES_256_CBC then EVP_aes_256_cbc
      else if mode = ENCRYPTION_AES_192_CBC then EVP_aes_192_cbc
      else if mode = ENCRYPTION_AES_128_CBC then EVP_aes_128_cbc
      else if mode = ENCRYPTION_AES_256_CTR then EVP_aes_256_ctr
      else if mode = ENCRYPTION_AES_192_CTR then EVP_aes_192_ctr
      else if mode = ENCRYPTION_AES_128_CTR then EVP_aes_128_ctr
      else EVP_aes_256_cbc)"

text \<open>
  \<open>get_cipher_buffer\<close> never returns a null pointer; the caller's test for one is kept
  as the \<open>None\<close> case.
\<close>

definition get_cipher_buffer :: "int \<Rightarrow> evp_cipher option" where
  "get_cipher_buffer mode =
     (if mode = ENCRYPTION_AES_256_CBC then Some EVP_aes_256_cbc
      else if mode = ENCRYPTION_AES_192_CBC then Some EVP_aes_192_cbc
      else if mode = ENCRYPTION_AES_128_CBC then Some EVP_aes_128_cbc
      else Some EVP_aes_256_cbc)"

text \<open>
  \<open>derive_key_iv\<close>: the key and IV buffers of the caller are zeroed arrays of
  \<open>EVP_MAX_KEY_LENGTH\<close> and \<open>EVP_MAX_IV_LENGTH\<close> bytes; the derivation fills their
  first bytes.  A cipher initialised from the buffers reads as many bytes as it needs
  (\<open>cipher_init\<close>).  \<open>None\<close> is the return value 1.
\<close>

definition derive_key_iv :: "'ctx evp \<Rightarrow> byte list \<Rightarrow> int \<Rightarrow> (byte list \<times> byte list) option" where
  "derive_key_iv lib password mode =
     (case EVP_BytesToKey lib (get_cipher mode) password of
        None \<Rightarrow> None
      | Some (k, v) \<Rightarrow>
          Some (take EVP_MAX_KEY_LENGTH (k @ replicate (EVP_MAX_KEY_LENGTH - length k) 0),
                take EVP_MAX_IV_LENGTH (v @ replicate (EVP_MAX_IV_LENGTH - length v) 0)))"

definition cipher_init :: "'ctx evp \<Rightarrow> evp_cipher \<Rightarrow> byte list \<Rightarrow> byte list \<Rightarrow> bool \<Rightarrow> 'ctx option" where
  "cipher_init lib c key iv enc =
     EVP_CipherInit_ex lib c (take (EVP_CIPHER_key_length lib c) key)
       (take (EVP_CIPHER_iv_length lib c) iv) enc"

text \<open>
  \<open>aes_decrypt\<close> and \<open>pgvictoria_decrypt\<close>.  The plaintext buffer has
  \<open>ciphertext_length + block_size\<close> zeroed bytes; the outputs of the update and of the
  final step are written one after the other, then a NUL behind them.  The outer \<open>None\<close>
  is a write outside the buffer, \<open>Inl 1\<close> the return value 1, \<open>Inr pt\<close> the return value
  0 with the plaintext buffer.
\<close>

definition aes_decrypt ::
  "'ctx evp \<Rightarrow> byte list \<Rightarrow> byte list \<Rightarrow> byte list \<Rightarrow> int \<Rightarrow> (int + byte list) option" where
  "aes_decrypt lib ciphertext key iv mode =
     (let c = get_cipher mode in
      case cipher_init lib c key iv False of
        None \<Rightarrow> Some (Inl 1)
      | Some ctx \<Rightarrow>
          (let sz = length ciphertext + EVP_CIPHER_block_size lib c;
               pt = replicate sz 0
           in case EVP_CipherUpdate lib ctx ciphertext of
                None \<Rightarrow> Some (Inl 1)
              | Some (ctx', u) \<Rightarrow>
                  (case write_bytes pt 0 u of
                     None \<Rightarrow> None
                   | Some pt \<Rightarrow>
                       (case EVP_CipherFinal_ex lib ctx' of
                          None \<Rightarrow> Some (Inl 1)
                        | Some f \<Rightarrow>
                            (case write_bytes pt (length u) f of
                               None \<Rightarrow> None
                             | Some pt \<Rightarrow>
                                 map_option Inr (write_bytes pt (length u + length f) [0]))))))"

definition pgvictoria_decrypt ::
  "'ctx evp \<Rightarrow> byte list \<Rightarrow> byte list \<Rightarrow> int \<Rightarrow> (int + byte list) option" where
  "pgvictoria_decrypt lib ciphertext password mode =
     (case derive_key_iv lib password mode of
        None \<Rightarrow> Some (Inl 1)
      | Some (key, iv) \<Rightarrow> aes_decrypt lib ciphertext key iv mode)"

text \<open>
  The buffer interface.  \<open>malloc\<close> returns memory with unspecified content: the
  parameter \<open>fresh\<close> gives the byte found at each index.  The master key comes from
  \<open>pgvictoria_get_master_key\<close>, which is outside the sources at hand (\<open>None\<close> when it
  fails).

  The library takes the number of input bytes as an \<open>int\<close> and reports the number of
  output bytes through an \<open>int*\<close>; the function holds both as \<open>size_t\<close>.
  \<open>int_of_size_t\<close> is the conversion of \<open>origin_size\<close> at the call: the low 32 bits,
  read as a signed number.  \<open>EVP_CipherUpdate lib ctx bs\<close> is the call on the \<open>inl\<close>
  bytes \<open>bs\<close> the library reads, so the function hands it the first \<open>inl\<close> bytes of
  \<open>origin_buffer\<close>; a negative \<open>inl\<close> is outside the interface of the library and has
  no result in the model (\<open>None\<close>).  \<open>size_t_of_int_store\<close> is what the zeroed \<open>size_t\<close>
  variables \<open>outl\<close> and \<open>f_len\<close> hold after the library has stored a length through
  \<open>(int*)&outl\<close> and \<open>(int*)&f_len\<close>, on the little-endian platforms the project names:
  the low 32 bits of the length.  The output of the final step is written at
  \<open>*res_buffer + outl\<close>, the NUL of a decryption at \<open>*res_size\<close>.  The result is the
  buffer and \<open>*res_size\<close>.
\<close>

definition int_of_size_t :: "nat \<Rightarrow> int" where
  "int_of_size_t n = sint (of_nat n :: 32 word)"

definition size_t_of_int_store :: "nat \<Rightarrow> nat" where
  "size_t_of_int_store n = unat (of_nat n :: 32 word)"

definition encrypt_decrypt_buffer ::
  "'ctx evp \<Rightarrow> byte list option \<Rightarrow> (nat \<Rightarrow> byte) \<Rightarrow> byte list \<Rightarrow> int \<Rightarrow> int
   \<Rightarrow> (int + byte list \<times> nat) option" where
  "encrypt_decrypt_buffer lib master_key fresh origin_buffer enc mode =
     (case get_cipher_buffer mode of
        None \<Rightarrow> Some (Inl 1)
      | Some c \<Rightarrow>
          (let cipher_block_size = EVP_CIPHER_block_size lib c;
               origin_size = length origin_buffer;
               outbuf_size = (if enc = 1 then origin_size + cipher_block_size else origin_size);
               res_buffer = map fresh [0..<outbuf_size + 1]
           in case master_key of
                None \<Rightarrow> Some (Inl 1)
              | Some mk \<Rightarrow>
                  (case derive_key_iv lib mk mode of
                     None \<Rightarrow> Some (Inl 1)
                   | Some (key, iv) \<Rightarrow>
                       (case cipher_init lib c key iv (enc \<noteq> 0) of
                          None \<Rightarrow> Some (Inl 1)
                        | Some ctx \<Rightarrow>
                            (let inl = int_of_size_t origin_size in
                             if inl < 0 then None
                             else
                               (case EVP_CipherUpdate lib ctx (take (nat inl) origin_buffer) of
                                  None \<Rightarrow> Some (Inl 1)
                                | Some (ctx', u) \<Rightarrow>
                                    (case write_bytes res_buffer 0 u of
                                       None \<Rightarrow> None
                                     | Some res_buffer \<Rightarrow>
                                         (let outl = size_t_of_int_store (length u) in
                                          case EVP_CipherFinal_ex lib ctx' of
                                            None \<Rightarrow> Some (Inl 1)
                                          | Some f \<Rightarrow>
                                              (case write_bytes res_buffer outl f of
                                                 None \<Rightarrow> None
                                               | Some res_buffer \<Rightarrow>
                                                   (let f_len = size_t_of_int_store (length f);
                                                        res_size = outl + f_len
                                                    in if enc = 0
                                                       then map_option (\<lambda>b. Inr (b, res_size))
                                                              (write_bytes res_buffer res_size [0])
                                                       else Some (Inr (res_buffer, res_size))))))))))))"

definition pgvictoria_encrypt_buffer ::
  "'ctx evp \<Rightarrow> byte list option \<Rightarrow> (nat \<Rightarrow> byte) \<Rightarrow> byte list \<Rightarrow> int
   \<Rightarrow> (int + byte list \<times> nat) option" where
  "pgvictoria_encrypt_buffer lib master_key fresh origin_buffer mode =
     encrypt_decrypt_buffer lib master_key fresh origin_buffer 1 mode"

definition pgvictoria_decrypt_buffer ::
  "'ctx evp \<Rightarrow> byte list option \<Rightarrow> (nat \<Rightarrow> byte) \<Rightarrow> byte list \<Rightarrow> int
   \<Rightarrow> (int + byte list \<times> nat) option" where
  "pgvictoria_decrypt_buffer lib master_key fresh origin_buffer mode =
     encrypt_decrypt_buffer lib master_key fresh origin_buffer 0 mode"


subsection \<open>The file interface\<close>

text \<open>
  The files are a map from a path to the content of the file at that path.

  Modelled from the spec: \<open>pgvictoria_exists\<close>, \<open>pgvictoria_delete_file\<close>,
  \<open>pgvictoria_append\<close> and \<open>pgvictoria_strip_extension\<close> (declared in utils.h, defined
  in the absent utils.c).  \<open>pgvictoria_exists\<close> tells whether the file exists; section
  4.6: the source file is deleted after the operation, encryption appends \<open>.aes\<close> when
  no target is given, decryption strips one trailing extension.  The status that
  \<open>pgvictoria_strip_extension\<close> returns is kept (\<open>None\<close> is its failure), though the
  operation of the spec has no failure.
\<close>

definition pgvictoria_exists :: "(string \<rightharpoonup> byte list) \<Rightarrow> string \<Rightarrow> bool" where
  "pgvictoria_exists files f \<longleftrightarrow> files f \<noteq> None"

definition pgvictoria_delete_file :: "(string \<rightharpoonup> byte list) \<Rightarrow> string \<Rightarrow> (string \<rightharpoonup> byte list)" where
  "pgvictoria_delete_file files f = files(f := None)"

definition pgvictoria_append :: "string \<Rightarrow> string \<Rightarrow> string" where
  "pgvictoria_append orig s = orig @ s"

definition pgvictoria_strip_extension :: "string \<Rightarrow> string option" where
  "pgvictoria_strip_extension s =
     (if CHR ''.'' \<in> set s
      then Some (rev (drop 1 (dropWhile (\<lambda>c. c \<noteq> CHR ''.'') (rev s))))
      else Some s)"

text \<open>
  The static \<open>encrypt_file\<close>.  \<open>fread\<close> delivers the source in pieces of
  \<open>ENC_BUF_SIZE\<close> bytes; each piece goes through \<open>EVP_CipherUpdate\<close> and the output is
  written to the target.  Opening the target for writing creates or empties it
  (\<open>writable\<close> tells whether it can be opened); the source is read after that, so a
  target that is the source reads as empty.  Errors of \<open>fread\<close> and \<open>fwrite\<close> are not
  modelled; the output of an update is taken to fit \<open>outbuf\<close>, as the library promises.
  The result is the returned status and the files.
\<close>

function pieces :: "nat \<Rightarrow> 'a list \<Rightarrow> 'a list list" where
  "pieces n xs = (if n = 0 \<or> xs = [] then [] else take n xs # pieces n (drop n xs))"
  by pat_completeness auto
termination
  by (relation "measure (\<lambda>(n, xs). length xs)") auto

fun update_pieces ::
  "'ctx evp \<Rightarrow> 'ctx \<Rightarrow> byte list list \<Rightarrow> byte list \<Rightarrow> bool \<times> 'ctx \<times> byte list" where
  "update_pieces lib ctx [] written = (True, ctx, written)"
| "update_pieces lib ctx (inbuf # rest) written =
     (case EVP_CipherUpdate lib ctx inbuf of
        None \<Rightarrow> (False, ctx, written)
      | Some (ctx', outbuf) \<Rightarrow> update_pieces lib ctx' rest (written @ outbuf))"

definition encrypt_file ::
  "'ctx evp \<Rightarrow> byte list option \<Rightarrow> (string \<Rightarrow> bool) \<Rightarrow> (string \<rightharpoonup> byte list)
   \<Rightarrow> string \<Rightarrow> string \<Rightarrow> int \<Rightarrow> int \<times> (string \<rightharpoonup> byte list)" where
  "encrypt_file lib master_key writable files from to enc =
     (let c = get_cipher ENCRYPTION_AES_256_CBC in
      case master_key of
        None \<Rightarrow> (1, files)
      | Some mk \<Rightarrow>
          (case derive_key_iv lib mk ENCRYPTION_AES_256_CBC of
             None \<Rightarrow> (1, files)
           | Some (key, iv) \<Rightarrow>
               (case files from of
                  None \<Rightarrow> (1, files)
                | Some original \<Rightarrow>
                    if \<not> writable to then (1, files)
                    else
                      (let files = files(to \<mapsto> []) in
                       case cipher_init lib c key iv (enc \<noteq> 0) of
                         None \<Rightarrow> (1, files)
                       | Some ctx \<Rightarrow>
                           (case files from of
                              None \<Rightarrow> (1, files)
                            | Some content \<Rightarrow>
                                (case update_pieces lib ctx (pieces ENC_BUF_SIZE content) [] of
                                   (ok, ctx', written) \<Rightarrow>
                                     if \<not> ok then (1, files(to \<mapsto> written))
                                     else
                                       (case EVP_CipherFinal_ex lib ctx' of
                                          None \<Rightarrow> (1, files(to \<mapsto> written))
                                        | Some f \<Rightarrow> (0, files(to \<mapsto> written @ f)))))))))"

definition pgvictoria_encrypt_file ::
  "'ctx evp \<Rightarrow> byte list option \<Rightarrow> (string \<Rightarrow> bool) \<Rightarrow> (string \<rightharpoonup> byte list)
   \<Rightarrow> string \<Rightarrow> string option \<Rightarrow> int \<times> (string \<rightharpoonup> byte list)" where
  "pgvictoria_encrypt_file lib master_key writable files from to =
     (if \<not> pgvictoria_exists files from then (1, files)
      else
        (let to = (case to of
                     None \<Rightarrow> pgvictoria_append (pgvictoria_append [] from) ''.aes''
                   | Some t \<Rightarrow> t);
             (status, files) = encrypt_file lib master_key writable files from to 1;
             files = (if pgvictoria_exists files from then pgvictoria_delete_file files from
                      else files)
         in (0, files)))"

definition pgvictoria_decrypt_file ::
  "'ctx evp \<Rightarrow> byte list option \<Rightarrow> (string \<Rightarrow> bool) \<Rightarrow> (string \<rightharpoonup> byte list)
   \<Rightarrow> string \<Rightarrow> string option \<Rightarrow> int \<times> (string \<rightharpoonup> byte list)" where
  "pgvictoria_decrypt_file lib master_key writable files from to =
     (if \<not> pgvictoria_exists files from then (1, files)
      else
        (case (case to of None \<Rightarrow> pgvictoria_strip_extension from | Some t \<Rightarrow> Some t) of
           None \<Rightarrow> (1, files)
         | Some to \<Rightarrow>
             (let (status, files) = encrypt_file lib master_key writable files from to 0;
                  files = (if pgvictoria_exists files from then pgvictoria_delete_file files from
                           else files)
              in (0, files))))"

text \<open>
  What the cipher library promises of a cipher, as far as the buffer interface needs it:
  a ciphertext is no shorter than its plaintext, and decrypting what was encrypted
  under the same cipher, key and IV succeeds and gives the plaintext back.
\<close>

definition evp_round_trip :: "'ctx evp \<Rightarrow> bool" where
  "evp_round_trip lib \<longleftrightarrow>
     (\<forall>c key iv b ctx ctx' u f.
        EVP_CipherInit_ex lib c key iv True = Some ctx
        \<and> EVP_CipherUpdate lib ctx b = Some (ctx', u)
        \<and> EVP_CipherFinal_ex lib ctx' = Some f
        \<longrightarrow> length b \<le> length (u @ f)
            \<and> (\<exists>dctx dctx' u' f'.
                  EVP_CipherInit_ex lib c key iv False = Some dctx
                  \<and> EVP_CipherUpdate lib dctx (u @ f) = Some (dctx', u')
                  \<and> EVP_CipherFinal_ex lib dctx' = Some f'
                  \<and> u' @ f' = b))"


section \<open>The configuration store (pgvictoria.h, configuration.c)\<close>

text \<open>
  The structures of pgvictoria.h.  A fixed-capacity \<open>char\<close> array of the configuration
  is its content as a C string: the shared memory is zeroed when it is created and each
  array is written from its start.  The arrays \<open>servers\<close> and \<open>users\<close> are functions
  from the index; the code reads and writes them at explicit indices, and an index at or
  beyond the capacity lies outside the array.  The atomic \<open>log_lock\<close> is not part of what
  is loaded or transferred.
\<close>

definition NUMBER_OF_SERVERS :: nat where "NUMBER_OF_SERVERS = 64"
definition NUMBER_OF_USERS :: nat where "NUMBER_OF_USERS = 64"
definition MAX_USERNAME_LENGTH :: nat where "MAX_USERNAME_LENGTH = 128"
definition MAX_PASSWORD_LENGTH :: nat where "MAX_PASSWORD_LENGTH = 1024"
definition LINE_LENGTH :: nat where "LINE_LENGTH = 512"

record server =
  server_name :: string
  server_host :: string
  server_port :: int
  server_primary :: bool
  server_username :: string
  server_version :: int
  server_minor_version :: int

record user =
  user_username :: string
  user_password :: string

record main_configuration =
  home_dir :: string
  log_type :: int
  log_level :: int
  log_path :: string
  log_mode :: int
  log_rotation_size :: int
  log_rotation_age :: int
  log_line_prefix :: string
  servers :: "nat \<Rightarrow> server"
  users :: "nat \<Rightarrow> user"
  number_of_servers :: int
  number_of_users :: int
  configuration_path :: string
  users_path :: string
  running :: bool
  host :: string
  authentication_timeout :: int
  pidfile :: string
  update_process_title :: int
  libev :: string
  backlog :: int
  hugepage :: int
  unix_socket_dir :: string

subsection \<open>Reload: \<open>transfer_configuration\<close>\<close>

text \<open>
  What the transfer writes to the log and does to the logger is kept as a list of
  events, in order.  \<open>restart_int\<close> and \<open>restart_string\<close> return 1 and log
  "Restart required for <name>" when the existing and the new value differ.
\<close>

datatype log_event =
    Restart_required string
  | Log_restart_triggered
  | Stop_logging
  | Start_logging

definition restart_int :: "string \<Rightarrow> int \<Rightarrow> int \<Rightarrow> int \<times> log_event list" where
  "restart_int name e n = (if e \<noteq> n then (1, [Restart_required name]) else (0, []))"

definition restart_string :: "string \<Rightarrow> string \<Rightarrow> string \<Rightarrow> int \<times> log_event list" where
  "restart_string name e n = (if e \<noteq> n then (1, [Restart_required name]) else (0, []))"

definition copy_server :: "server \<Rightarrow> server \<Rightarrow> int \<times> log_event list" where
  "copy_server dst src =
     (let (r1, l1) = restart_string ''name'' (server_name dst) (server_name src);
          (r2, l2) = restart_string ''host'' (server_host dst) (server_host src);
          (r3, l3) = restart_int ''port'' (server_port dst) (server_port src);
          (r4, l4) = restart_string ''username'' (server_username dst) (server_username src);
          changed = (r1 \<noteq> 0 \<or> r2 \<noteq> 0 \<or> r3 \<noteq> 0 \<or> r4 \<noteq> 0)
      in (if changed then 1 else 0, l1 @ l2 @ l3 @ l4))"

definition copy_user :: "user \<Rightarrow> user \<Rightarrow> user" where
  "copy_user dst src = dst\<lparr>user_username := user_username src, user_password := user_password src\<rparr>"

text \<open>The fields of a server that \<open>copy_server\<close> compares.\<close>

definition server_differs :: "server \<Rightarrow> server \<Rightarrow> bool" where
  "server_differs dst src \<longleftrightarrow>
     server_name dst \<noteq> server_name src \<or> server_host dst \<noteq> server_host src
     \<or> server_port dst \<noteq> server_port src \<or> server_username dst \<noteq> server_username src"

fun copy_servers ::
  "(nat \<Rightarrow> server) \<Rightarrow> (nat \<Rightarrow> server) \<Rightarrow> nat list \<Rightarrow> bool \<times> log_event list
   \<Rightarrow> bool \<times> log_event list" where
  "copy_servers dst src [] (changed, ev) = (changed, ev)"
| "copy_servers dst src (i # is) (changed, ev) =
     (let (r, l) = copy_server (dst i) (src i)
      in copy_servers dst src is (if r \<noteq> 0 then True else changed, ev @ l))"

fun copy_users :: "(nat \<Rightarrow> user) \<Rightarrow> (nat \<Rightarrow> user) \<Rightarrow> nat list \<Rightarrow> (nat \<Rightarrow> user)" where
  "copy_users dst src [] = dst"
| "copy_users dst src (i # is) = copy_users (dst(i := copy_user (dst i) (src i))) src is"

definition transfer_configuration ::
  "main_configuration \<Rightarrow> main_configuration \<Rightarrow> bool \<times> main_configuration \<times> log_event list" where
  "transfer_configuration config reload =
     (let changed = False;
          (r, ev) = restart_string ''host'' (host config) (host reload);
          changed = (if r \<noteq> 0 then True else changed);
          (r, l) = restart_int ''log_type'' (log_type config) (log_type reload);
          changed = (if r \<noteq> 0 then True else changed);
          ev = ev @ l;
          config = config\<lparr>log_level := log_level reload\<rparr>;
          (config, ev) =
            (if log_path config \<noteq> log_path reload
                \<or> log_rotation_size config \<noteq> log_rotation_size reload
                \<or> log_rotation_age config \<noteq> log_rotation_age reload
                \<or> log_mode config \<noteq> log_mode reload
             then (config\<lparr>log_rotation_size := log_rotation_size reload,
                          log_rotation_age := log_rotation_age reload,
                          log_mode := log_mode reload,
                          log_line_prefix := log_line_prefix reload,
                          log_path := log_path reload\<rparr>,
                   ev @ [Log_restart_triggered, Stop_logging, Start_logging])
             else (config, ev));
          config = config\<lparr>authentication_timeout := authentication_timeout reload\<rparr>;
          ev = (if pidfile reload \<noteq> []
                then ev @ snd (restart_string ''pidfile'' (pidfile config) (pidfile reload))
                else ev);
          (r, l) = restart_string ''libev'' (libev config) (libev reload);
          changed = (if r \<noteq> 0 then True else changed);
          ev = ev @ l;
          config = config\<lparr>backlog := backlog reload\<rparr>;
          (r, l) = restart_int ''hugepage'' (hugepage config) (hugepage reload);
          changed = (if r \<noteq> 0 then True else changed);
          ev = ev @ l;
          (r, l) = restart_int ''update_process_title'' (update_process_title config)
                     (update_process_title reload);
          changed = (if r \<noteq> 0 then True else changed);
          ev = ev @ l;
          (r, l) = restart_string ''unix_socket_dir'' (unix_socket_dir config) (unix_socket_dir reload);
          changed = (if r \<noteq> 0 then True else changed);
          ev = ev @ l;
          (changed, ev) = copy_servers (servers config) (servers reload) [0..<NUMBER_OF_SERVERS] (changed, ev);
          (r, l) = restart_int ''number_of_servers'' (number_of_servers config) (number_of_servers reload);
          changed = (if r \<noteq> 0 then True else changed);
          ev = ev @ l;
          config = config\<lparr>users := copy_users (users config) (users reload) [0..<NUMBER_OF_USERS]\<rparr>;
          config = config\<lparr>number_of_users := number_of_users reload\<rparr>
      in (changed, config, ev))"

subsection \<open>The users file: \<open>pgvictoria_read_users_configuration\<close>\<close>

text \<open>
  \<open>fgets(line, sizeof(line), file)\<close> with \<open>LINE_LENGTH\<close> = 512: each call returns the next
  characters of the file up to and including a newline, at most 511 of them.
  \<open>fgets_lines [] content\<close> is the list of the lines the loop sees.
\<close>

fun fgets_lines :: "string \<Rightarrow> string \<Rightarrow> string list" where
  "fgets_lines acc [] = (if acc = [] then [] else [rev acc])"
| "fgets_lines acc (c # cs) =
     (if c = CHR 0x0A \<or> length acc + 1 = LINE_LENGTH - 1
      then rev (c # acc) # fgets_lines [] cs
      else fgets_lines (c # acc) cs)"

definition isspace :: "char \<Rightarrow> bool" where
  "isspace c \<longleftrightarrow> c = CHR '' '' \<or> c = CHR 0x09 \<or> c = CHR 0x0A \<or> c = CHR 0x0B
                 \<or> c = CHR 0x0C \<or> c = CHR 0x0D"

text \<open>A \<open>char*\<close> that may be null is a \<open>string option\<close>.\<close>

fun is_empty_string :: "string option \<Rightarrow> bool" where
  "is_empty_string None = True"
| "is_empty_string (Some s) =
     list_all (\<lambda>c. c = CHR '' '' \<or> c = CHR 0x09 \<or> c = CHR 0x0D \<or> c = CHR 0x0A) s"

text \<open>
  \<open>remove_leading_whitespace_and_comments\<close>: the characters after the leading white
  space and before the first \<open>;\<close> or \<open>#\<close> are appended to the result, which stays a
  null pointer when there are none (\<open>Some None\<close>).  The index of the last character that
  is not white space counts from the start of the line, and the NUL that cuts the result
  is stored at that index plus one of the result.  On the terminator of the result it
  changes nothing.  Behind the terminator it is a store outside the string;
  \<open>pgvictoria_append_char\<close> is outside the sources at hand, so nothing is known to be
  allocated there and the model gives no result (\<open>None\<close>).  The failure of
  \<open>pgvictoria_append_char\<close> to allocate is not modelled.
\<close>

definition remove_leading_whitespace_and_comments :: "string \<Rightarrow> string option option" where
  "remove_leading_whitespace_and_comments s =
     (let i = length (takeWhile isspace s);
          result = takeWhile (\<lambda>c. c \<noteq> CHR '';'' \<and> c \<noteq> CHR ''#'') (drop i s);
          non_white = filter (\<lambda>j. \<not> isspace (s ! j)) [i..<i + length result]
      in if result = [] then Some None
         else if non_white = [] then Some (Some result)
         else if last non_white + 1 \<le> length result
              then Some (Some (take (last non_white + 1) result))
              else None)"

text \<open>
  \<open>strtok(s, ":")\<close>: the next token and the rest of the string behind the delimiter that
  ends the token; \<open>None\<close> when only delimiters are left.
\<close>

definition strtok :: "string \<Rightarrow> (string \<times> string) option" where
  "strtok s =
     (let r = dropWhile (\<lambda>c. c = CHR '':'') s
      in if r = [] then None
         else Some (takeWhile (\<lambda>c. c \<noteq> CHR '':'') r, drop 1 (dropWhile (\<lambda>c. c \<noteq> CHR '':'') r)))"

definition text_of :: "byte list \<Rightarrow> string" where
  "text_of bs = map (\<lambda>b. char_of (unat b)) bs"

definition c_string :: "byte list \<Rightarrow> byte list" where
  "c_string bs = takeWhile (\<lambda>b. b \<noteq> 0) bs"

text \<open>
  One entry line, after trimming.  \<open>pgvictoria_base64_decode\<close> is outside the sources at
  hand and is a parameter.  \<open>None\<close> is undefined behaviour inside the decryption,
  \<open>Some None\<close> a \<open>goto error\<close>, \<open>Some (Some (username, password))\<close> the decoded entry.
\<close>

definition parse_user_entry ::
  "'ctx evp \<Rightarrow> (string \<Rightarrow> byte list option) \<Rightarrow> byte list \<Rightarrow> string
   \<Rightarrow> (string \<times> string) option option" where
  "parse_user_entry lib base64_decode master_key trimmed_line =
     (case strtok trimmed_line of
        None \<Rightarrow> Some None
      | Some (username, rest) \<Rightarrow>
          (case strtok rest of
             None \<Rightarrow> Some None
           | Some (ptr, rest') \<Rightarrow>
               (case base64_decode ptr of
                  None \<Rightarrow> Some None
                | Some decoded \<Rightarrow>
                    (case pgvictoria_decrypt lib decoded master_key ENCRYPTION_AES_256_CBC of
                       None \<Rightarrow> None
                     | Some (Inl e) \<Rightarrow> Some None
                     | Some (Inr password) \<Rightarrow> Some (Some (username, text_of (c_string password)))))))"

text \<open>
  What the loop makes of one line of the file: a line that is empty, or empty after
  trimming, is skipped; a line that does not parse, decode or decrypt ends the loading
  with \<open>goto error\<close>; any other line is an entry.  \<open>None\<close> is undefined behaviour inside
  the trimming or the decryption.
\<close>

datatype user_line = Skipped | Malformed | User_entry string string

definition read_user_line ::
  "'ctx evp \<Rightarrow> (string \<Rightarrow> byte list option) \<Rightarrow> byte list \<Rightarrow> string \<Rightarrow> user_line option" where
  "read_user_line lib base64_decode master_key line =
     (if \<not> is_empty_string (Some line) then
        (case remove_leading_whitespace_and_comments line of
           None \<Rightarrow> None
         | Some None \<Rightarrow> Some Skipped
         | Some (Some trimmed_line) \<Rightarrow>
             if is_empty_string (Some trimmed_line) then Some Skipped
             else
               (case parse_user_entry lib base64_decode master_key trimmed_line of
                  None \<Rightarrow> None
                | Some None \<Rightarrow> Some Malformed
                | Some (Some (username, password)) \<Rightarrow> Some (User_entry username password)))
      else Some Skipped)"

text \<open>
  The loop over the lines.  The state is the index, the \<open>users\<close> array and the list of
  the indices of \<open>users\<close> at which an entry was stored, in order.  \<open>memcpy\<close> copies
  \<open>strlen\<close> bytes over the start of the array of the entry, which keeps what lay behind
  them.

  Nothing bounds the index of a store.  At an index at or beyond \<open>NUMBER_OF_USERS\<close> the
  two copies land behind the array: on \<open>number_of_servers\<close>, \<open>number_of_users\<close> and the
  two paths, which follow \<open>users\<close> in \<open>struct common_configuration\<close>, on the fields of
  \<open>struct main_configuration\<close> behind those, and from there on outside the
  configuration.  What such a store overwrites is not modelled: from the first of them on
  the content of the configuration is not determined (\<open>None\<close>).  The index, the line and
  the file are variables of the function, not part of the configuration, and the loop is
  followed further, as in a run that outlives its stores.  The flag of the result tells
  whether the loop was left by \<open>goto error\<close>.
\<close>

definition overlay :: "string \<Rightarrow> string \<Rightarrow> string" where
  "overlay new old = new @ drop (length new) old"

definition store_user ::
  "(nat \<Rightarrow> user) option \<Rightarrow> nat \<Rightarrow> string \<Rightarrow> string \<Rightarrow> (nat \<Rightarrow> user) option" where
  "store_user users_table index username password =
     (case users_table of
        None \<Rightarrow> None
      | Some us \<Rightarrow>
          if index < NUMBER_OF_USERS
          then Some (us(index := \<lparr>user_username = overlay username (user_username (us index)),
                                   user_password = overlay password (user_password (us index))\<rparr>))
          else None)"

fun read_user_lines ::
  "'ctx evp \<Rightarrow> (string \<Rightarrow> byte list option) \<Rightarrow> byte list \<Rightarrow> string list
   \<Rightarrow> nat \<times> (nat \<Rightarrow> user) option \<times> nat list
   \<Rightarrow> (bool \<times> nat \<times> (nat \<Rightarrow> user) option \<times> nat list) option" where
  "read_user_lines lib base64_decode master_key [] st = Some (False, st)"
| "read_user_lines lib base64_decode master_key (line # lines) (index, us, stores) =
     (case read_user_line lib base64_decode master_key line of
        None \<Rightarrow> None
      | Some Skipped \<Rightarrow> read_user_lines lib base64_decode master_key lines (index, us, stores)
      | Some Malformed \<Rightarrow> Some (True, index, us, stores)
      | Some (User_entry username password) \<Rightarrow>
          (if length username < MAX_USERNAME_LENGTH \<and> length password < MAX_PASSWORD_LENGTH
           then read_user_lines lib base64_decode master_key lines
                  (index + 1, store_user us index username password, stores @ [index])
           else read_user_lines lib base64_decode master_key lines (index + 1, us, stores)))"

text \<open>
  \<open>pgvictoria_read_users_configuration\<close>: the file (\<open>None\<close> when it cannot be opened),
  the master key (\<open>None\<close> when \<open>pgvictoria_get_master_key\<close> fails).  The result is the
  returned status, the configuration (\<open>None\<close> when a store behind \<open>users\<close> has left its
  content undetermined) and the indices of \<open>users\<close> that were stored to.
  \<open>number_of_users\<close> is assigned after the loop and compared right after.
\<close>

definition pgvictoria_read_users_configuration ::
  "'ctx evp \<Rightarrow> (string \<Rightarrow> byte list option) \<Rightarrow> byte list option \<Rightarrow> string option
   \<Rightarrow> main_configuration \<Rightarrow> (int \<times> main_configuration option \<times> nat list) option" where
  "pgvictoria_read_users_configuration lib base64_decode master_key file config =
     (case file of
        None \<Rightarrow> Some (1, Some config, [])
      | Some content \<Rightarrow>
          (case master_key of
             None \<Rightarrow> Some (2, Some config, [])
           | Some mk \<Rightarrow>
               (case read_user_lines lib base64_decode mk (fgets_lines [] content)
                       (0, Some (users config), []) of
                  None \<Rightarrow> None
                | Some (error, index, us, stores) \<Rightarrow>
                    if error then Some (1, map_option (\<lambda>us. config\<lparr>users := us\<rparr>) us, stores)
                    else
                      (let number_of_users = int index;
                           config = map_option
                             (\<lambda>us. config\<lparr>users := us, number_of_users := number_of_users\<rparr>) us
                       in if number_of_users > int NUMBER_OF_USERS
                          then Some (3, config, stores)
                          else Some (0, config, stores)))))"

text \<open>
  A line the loop accepts (it skips it or takes it as an entry), a line it takes as an
  entry, and a line whose entry it stores (the name and the password pass the length
  test).
\<close>

definition acceptable_line ::
  "'ctx evp \<Rightarrow> (string \<Rightarrow> byte list option) \<Rightarrow> byte list \<Rightarrow> string \<Rightarrow> bool" where
  "acceptable_line lib base64_decode master_key line =
     (case read_user_line lib base64_decode master_key line of
        Some Skipped \<Rightarrow> True
      | Some (User_entry username password) \<Rightarrow> True
      | Some Malformed \<Rightarrow> False
      | None \<Rightarrow> False)"

definition entry_line ::
  "'ctx evp \<Rightarrow> (string \<Rightarrow> byte list option) \<Rightarrow> byte list \<Rightarrow> string \<Rightarrow> bool" where
  "entry_line lib base64_decode master_key line =
     (case read_user_line lib base64_decode master_key line of
        Some (User_entry username password) \<Rightarrow> True
      | Some Skipped \<Rightarrow> False
      | Some Malformed \<Rightarrow> False
      | None \<Rightarrow> False)"

definition stored_line ::
  "'ctx evp \<Rightarrow> (string \<Rightarrow> byte list option) \<Rightarrow> byte list \<Rightarrow> string \<Rightarrow> bool" where
  "stored_line lib base64_decode master_key line =
     (case read_user_line lib base64_decode master_key line of
        Some (User_entry username password) \<Rightarrow>
          length username < MAX_USERNAME_LENGTH \<and> length password < MAX_PASSWORD_LENGTH
      | Some Skipped \<Rightarrow> False
      | Some Malformed \<Rightarrow> False
      | None \<Rightarrow> False)"

section \<open>Example values\<close>

text \<open>
  A small cipher library and a decoder for the examples: the cipher adds one to each
  byte and appends one byte of padding, the decoder takes the text as it is.
\<close>

definition example_evp :: "bool evp" where
  "example_evp =
     \<lparr>EVP_CIPHER_key_length = (\<lambda>c. 32),
      EVP_CIPHER_iv_length = (\<lambda>c. 16),
      EVP_CIPHER_block_size = (\<lambda>c. 16),
      EVP_BytesToKey = (\<lambda>c password. Some (take 32 (password @ replicate 32 0), replicate 16 0)),
      EVP_CipherInit_ex = (\<lambda>c key iv enc. Some enc),
      EVP_CipherUpdate = (\<lambda>enc input.
         if enc then Some (enc, map (\<lambda>b. b + 1) input)
         else if input = [] then None
         else Some (enc, map (\<lambda>b. b - 1) (butlast input))),
      EVP_CipherFinal_ex = (\<lambda>enc. if enc then Some [16] else Some [])\<rparr>"

definition example_base64_decode :: "string \<Rightarrow> byte list option" where
  "example_base64_decode s = Some (ascii s)"

definition example_users_file :: "nat \<Rightarrow> string" where
  "example_users_file n = concat (replicate n ''u:xy\<newline>'')"

definition example_configuration :: main_configuration where
  "example_configuration =
     \<lparr>home_dir = ''/home/pgvictoria'', log_type = 0, log_level = 3, log_path = [],
      log_mode = 0, log_rotation_size = 0, log_rotation_age = 0, log_line_prefix = [],
      servers = (\<lambda>i. \<lparr>server_name = (if i = 0 then ''primary'' else []),
                        server_host = (if i = 0 then ''localhost'' else []),
                        server_port = (if i = 0 then 5432 else 0),
                        server_primary = False,
                        server_username = (if i = 0 then ''alice'' else []),
                        server_version = 0, server_minor_version = 0\<rparr>),
      users = (\<lambda>i. \<lparr>user_username = (if i = 0 then ''alice'' else []),
                      user_password = (if i = 0 then ''secret'' else [])\<rparr>),
      number_of_servers = 1, number_of_users = 1,
      configuration_path = ''/etc/pgvictoria/pgvictoria.conf'',
      users_path = ''/etc/pgvictoria/pgvictoria_users.conf'',
      running = True, host = ''*'', authentication_timeout = 5,
      pidfile = ''/run/pgvictoria/a.pid'', update_process_title = 3, libev = ''auto'',
      backlog = 16, hugepage = 1, unix_socket_dir = ''/tmp''\<rparr>"

text \<open>
  A reply to a query for nine columns: the RowDescription arrives in a first read, the
  row, the command tag and ReadyForQuery in a later one.
\<close>

definition example_column :: "string \<Rightarrow> byte list \<times> byte list" where
  "example_column name = (ascii name, [0,0,0,0, 0,0, 0,0,0,23, 0,4, 255,255,255,255, 0,0])"

definition nine_columns :: "(byte list \<times> byte list) list" where
  "nine_columns =
     map example_column [''c1'', ''c2'', ''c3'', ''c4'', ''c5'', ''c6'', ''c7'', ''c8'', ''c9'']"

definition nine_columns_row :: "backend_message list" where
  "nine_columns_row =
     [DataRow (map (\<lambda>v. Some (ascii v))
                 [''a'', ''b'', ''c'', ''d'', ''e'', ''f'', ''g'', ''h'', ''i'']),
      CommandComplete (ascii ''SELECT 1''),
      ReadyForQuery (chr CHR ''I'')]"


section \<open>Facts about the codec\<close>

lemma length_ascii: "length (ascii s) = length s"
  by (simp add: ascii_def)

lemma length_be32: "length (be32 w) = 4"
  by (simp add: be32_def)

lemma aligned_size_ge: "sz \<le> pgvictoria_get_aligned_size sz"
proof -
  have "sz = sz div 512 * 512 + sz mod 512" by simp
  moreover have "sz mod 512 < 512" by simp
  ultimately show ?thesis
    unfolding pgvictoria_get_aligned_size_def ALIGNMENT_SIZE_def
    by (cases "sz mod 512 = 0") auto
qed

lemma aligned_size_gt:
  assumes "sz mod 512 \<noteq> 0"
  shows "sz < pgvictoria_get_aligned_size sz"
proof -
  have "sz = sz div 512 * 512 + sz mod 512" by simp
  moreover have "sz mod 512 < 512" by simp
  ultimately show ?thesis
    using assms unfolding pgvictoria_get_aligned_size_def ALIGNMENT_SIZE_def
    by auto
qed

lemma write_bytes_zeros:
  assumes "off = length pre" and "length bs \<le> n"
  shows "write_bytes (pre @ replicate n 0) off bs = Some ((pre @ bs) @ replicate (n - length bs) 0)"
  using assms by (simp add: write_bytes_def)

lemma write_bytes_gap:
  assumes "off = length pre + g" and "g + length bs \<le> n"
  shows "write_bytes (pre @ replicate n 0) off bs
         = Some ((pre @ replicate g 0 @ bs) @ replicate (n - g - length bs) 0)"
  using assms by (simp add: write_bytes_def)

lemma write_string_zeros:
  assumes "off = length pre" and "length s < n"
  shows "pgvictoria_write_string (pre @ replicate n 0) off s
         = Some ((pre @ s) @ replicate (n - length s) 0)"
proof -
  have "replicate (n - length s) (0::byte) = 0 # replicate (n - length s - 1) 0"
    using assms(2) by (cases "n - length s") simp_all
  then show ?thesis
    using assms by (simp add: pgvictoria_write_string_def write_bytes_def)
qed


subsection \<open>Reading back what was written\<close>

lemma unat_byte_of_nat: "n < 256 \<Longrightarrow> unat (of_nat n :: byte) = n"
  by (simp add: unat_of_nat)

lemma be_value_be32: "be_value (be32 w) = unat w"
proof -
  define n where "n = unat w"
  have b: "n < 4294967296" using unsigned_less[of w, where 'a=nat] by (simp add: n_def)
  have e2: "n div 65536 = n div 256 div 256" by (simp add: div_mult2_eq[symmetric])
  have e3: "n div 16777216 = n div 256 div 256 div 256" by (simp add: div_mult2_eq[symmetric])
  have lt: "n div 16777216 < 256" using b by simp
  have "((n div 256 div 256 div 256 * 256 + n div 256 div 256 mod 256) * 256 + n div 256 mod 256) * 256 + n mod 256 = n"
    by (simp only: div_mult_mod_eq)
  then have "((n div 16777216 * 256 + n div 65536 mod 256) * 256 + n div 256 mod 256) * 256 + n mod 256 = n"
    by (simp only: e2 e3)
  then show ?thesis
    using lt by (simp add: be_value_def be32_def unat_byte_of_nat n_def[symmetric])
qed

lemma be_value_be16: "be_value (be16 w) = unat w"
proof -
  have b: "unat w < 65536" using unsigned_less[of w, where 'a=nat] by simp
  have "unat w div 256 < 256" using b by simp
  moreover have "unat w div 256 * 256 + unat w mod 256 = unat w"
    by (simp only: div_mult_mod_eq)
  ultimately show ?thesis
    by (simp add: be_value_def be16_def unat_byte_of_nat)
qed

lemma read_bytes_at:
  "read_bytes (pre @ xs @ rest) (length pre) (length xs) = Some xs"
  by (simp add: read_bytes_def)

lemma read_int32_at:
  "pgvictoria_read_int32 (pre @ be32 w @ rest) (length pre) = Some w"
  using read_bytes_at[of pre "be32 w" rest]
  by (simp add: pgvictoria_read_int32_def length_be32 be_value_be32)

lemma read_byte_at:
  "pgvictoria_read_byte (pre @ b # rest) (length pre) = Some b"
  by (simp add: pgvictoria_read_byte_def)

lemma sint_of_nat_32:
  assumes "n < 2 ^ 31"
  shows "sint (of_nat n :: 32 word) = int n"
proof -
  have "int n < int (2 ^ 31)" using assms by (simp only: of_nat_less_iff)
  then have lt: "int n < 2 ^ 31" by simp
  have ge: "- (2 ^ 31) \<le> int n" by simp
  have "signed_take_bit 31 (int n) = int n"
    using ge lt by (rule signed_take_bit_int_eq_self)
  moreover have "sint (of_nat n :: 32 word) = signed_take_bit 31 (int n)"
    by (simp only: signed_of_nat) simp
  ultimately show ?thesis by simp
qed

lemma size_t_add_nat:
  assumes "n < 2 ^ 31" and "off + n < 2 ^ 64"
  shows "size_t_add off (of_nat n) = off + n"
proof -
  have "int (off + n) < int (2 ^ 64)" using assms(2) by (simp only: of_nat_less_iff)
  then have "int off + int n < 2 ^ 64" by simp
  then have "(int off + int n) mod 2 ^ 64 = int off + int n"
    by (intro mod_pos_pos_trivial) simp_all
  then show ?thesis
    using assms(1) by (simp add: size_t_add_def sint_of_nat_32)
qed


lemma length_frame_bytes: "length (frame_bytes f) = 5 + length (snd f)"
  by (simp add: frame_bytes_def length_be32)

lemma read_byte_frame:
  "pgvictoria_read_byte (pre @ frame_bytes f @ rest) (length pre) = Some (fst f)"
  by (simp add: pgvictoria_read_byte_def frame_bytes_def)

lemma read_int32_frame:
  "pgvictoria_read_int32 (pre @ frame_bytes f @ rest) (length pre + 1)
   = Some (of_nat (4 + length (snd f)))"
  using read_int32_at[of "pre @ [fst f]" "of_nat (4 + length (snd f))" "snd f @ rest"]
  by (simp add: frame_bytes_def)

lemma read_int32_frame_Suc:
  "pgvictoria_read_int32 (pre @ frame_bytes f @ rest) (Suc (length pre))
   = Some (of_nat (4 + length (snd f)))"
  using read_int32_frame[of pre f rest] by simp

lemma next_offset_frame:
  assumes "well_formed_frame f" and "length pre + length (frame_bytes f) < 2 ^ 64"
  shows "size_t_add (length pre + 1) (of_nat (4 + length (snd f))) = length pre + length (frame_bytes f)"
  using assms size_t_add_nat[of "4 + length (snd f)" "length pre + 1"]
  by (simp add: well_formed_frame_def length_frame_bytes)

lemma extract_message_offset_frame:
  assumes "well_formed_frame f" and "length pre + length (frame_bytes f) < 2 ^ 64"
  shows "pgvictoria_extract_message_offset (length pre) (pre @ frame_bytes f @ rest)
         = Some (length pre + length (frame_bytes f),
                 \<lparr>kind = fst f, mlength = length (frame_bytes f), data = frame_bytes f\<rparr>)"
proof -
  have s: "sint (of_nat (4 + length (snd f)) :: 32 word) = int (4 + length (snd f))"
    using assms(1) by (intro sint_of_nat_32) (simp add: well_formed_frame_def)
  have n: "nat (1 + int (4 + length (snd f))) = length (frame_bytes f)"
    by (simp add: length_frame_bytes)
  show ?thesis
    unfolding pgvictoria_extract_message_offset_def
    by (simp only: read_byte_frame read_int32_frame Option.bind.simps s n
          read_bytes_at next_offset_frame[OF assms]) simp
qed

lemma has_message_loop_stream:
  assumes "list_all well_formed_frame fs"
    and "length pre + length (stream_bytes fs) < 2 ^ 64"
  shows "has_message_loop t (pre @ stream_bytes fs) (length pre + length (stream_bytes fs)) (length pre)
         = Some (Some (t \<in> fst ` set fs))"
  using assms
proof (induction fs arbitrary: pre)
  case Nil
  show ?case by (subst has_message_loop.simps) (simp add: stream_bytes_def)
next
  case (Cons f fs)
  have wf: "well_formed_frame f" and wfs: "list_all well_formed_frame fs"
    using Cons.prems(1) by simp_all
  have sb: "stream_bytes (f # fs) = frame_bytes f @ stream_bytes fs"
    by (simp add: stream_bytes_def)
  have bound: "length pre + length (frame_bytes f) < 2 ^ 64"
    using Cons.prems(2) by (simp add: sb)
  have lt: "length pre < length pre + length (stream_bytes (f # fs))"
    by (simp add: sb length_frame_bytes)
  show ?case
  proof (cases "t = fst f")
    case True
    then show ?thesis
      using lt extract_message_offset_frame[OF wf bound, of "stream_bytes fs"]
      by (subst has_message_loop.simps) (simp add: sb read_byte_frame)
  next
    case False
    have ih: "has_message_loop t ((pre @ frame_bytes f) @ stream_bytes fs)
                (length (pre @ frame_bytes f) + length (stream_bytes fs)) (length (pre @ frame_bytes f))
              = Some (Some (t \<in> fst ` set fs))"
      using Cons.prems(2) by (intro Cons.IH[OF wfs]) (simp add: sb)
    show ?thesis
      using False lt ih
      by (subst has_message_loop.simps)
         (simp add: sb read_byte_frame read_int32_frame_Suc next_offset_frame[OF wf bound, simplified] add.assoc)
  qed
qed

lemma has_message_stream:
  assumes "list_all well_formed_frame fs" and "length (stream_bytes fs) < 2 ^ 64"
  shows "pgvictoria_has_message t (stream_bytes fs) (length (stream_bytes fs))
         = Some (Some (t \<in> fst ` set fs))"
  using has_message_loop_stream[of fs "[]" t] assms
  by (simp add: pgvictoria_has_message_def)

subsection \<open>Writing into a zeroed region\<close>

lemma write_int32_at_end:
  assumes "off = length pre" and "4 \<le> n"
  shows "pgvictoria_write_int32 (pre @ replicate n 0) off w
         = Some ((pre @ be32 w) @ replicate (n - 4) 0)"
  using assms write_bytes_zeros[of off pre "be32 w" n]
  by (simp add: pgvictoria_write_int32_def length_be32)

lemma write_string_at_end:
  assumes "off = length pre" and "length s < n"
  shows "pgvictoria_write_string (pre @ replicate n 0) off s
         = Some ((pre @ s @ [0]) @ replicate (n - Suc (length s)) 0)"
  using assms write_bytes_zeros[of off pre "s @ [0]" n]
  by (simp add: pgvictoria_write_string_def)

lemma write_string_gap:
  assumes "off = length pre + g" and "g + length s < n"
  shows "pgvictoria_write_string (pre @ replicate n 0) off s
         = Some ((pre @ replicate g 0 @ s @ [0]) @ replicate (n - g - Suc (length s)) 0)"
  using assms write_bytes_gap[of off pre g "s @ [0]" n]
  by (simp add: pgvictoria_write_string_def)


section \<open>The message constructors\<close>

lemma scram_data:
  assumes nz: "(31 + length nounce) mod 512 \<noteq> 0"
  shows "pgvictoria_create_auth_scram256_response nounce
         = Some \<lparr>kind = chr CHR ''p'', mlength = 31 + length nounce,
                 data = ([chr CHR ''p''] @ be32 (of_nat (30 + length nounce))
                         @ ascii ''SCRAM-SHA-256'' @ [0] @ [0, 0, 0]
                         @ ascii '' n,,n=,r='' @ nounce) @ [0]
                        @ replicate (pgvictoria_get_aligned_size (31 + length nounce)
                                     - Suc (31 + length nounce)) 0\<rparr>"
proof -
  define n where "n = length nounce"
  define sz where "sz = 31 + n"
  define cap where "cap = pgvictoria_get_aligned_size sz"
  have cap: "sz < cap"
    using nz aligned_size_gt[of sz] by (simp add: sz_def cap_def n_def)
  define p1 where "p1 = [chr CHR ''p'']"
  define p2 where "p2 = p1 @ be32 (of_nat (sz - 1))"
  define p3 where "p3 = p2 @ ascii ''SCRAM-SHA-256'' @ [0]"
  define p4 where "p4 = p3 @ replicate 3 0 @ ascii '' n,,n=,r=''"
  define p5 where "p5 = p4 @ nounce"
  have l1: "length p1 = 1" by (simp add: p1_def)
  have l2: "length p2 = 5" by (simp add: p2_def l1 length_be32)
  have l3: "length p3 = 19" by (simp add: p3_def l2 length_ascii)
  have l4: "length p4 = 31" by (simp add: p4_def l3 length_ascii)
  have l5: "length p5 = sz" by (simp add: p5_def l4 sz_def n_def)
  have w1: "pgvictoria_write_byte (replicate cap 0) 0 (chr CHR ''p'') = Some (p1 @ replicate (cap - 1) 0)"
    using write_bytes_zeros[of 0 "[]" "[chr CHR ''p'']" cap] cap
    by (simp add: pgvictoria_write_byte_def p1_def sz_def)
  have w2: "pgvictoria_write_int32 (p1 @ replicate (cap - 1) 0) 1 (of_nat (sz - 1)) = Some (p2 @ replicate (cap - 5) 0)"
    using write_int32_at_end[of 1 p1 "cap - 1"] cap by (simp add: p2_def l1 sz_def)
  have w3: "pgvictoria_write_string (p2 @ replicate (cap - 5) 0) 5 (ascii ''SCRAM-SHA-256'')
            = Some (p3 @ replicate (cap - 19) 0)"
    using write_string_at_end[of 5 p2 "ascii ''SCRAM-SHA-256''" "cap - 5"] cap
    by (simp add: p3_def l2 length_ascii sz_def)
  have w4: "pgvictoria_write_string (p3 @ replicate (cap - 19) 0) 22 (ascii '' n,,n=,r='')
            = Some (p4 @ replicate (cap - 31) 0)"
  proof -
    have "(p3 @ replicate 3 0 @ ascii '' n,,n=,r='' @ [0]) @ replicate (cap - 19 - 3 - 10) 0
          = p4 @ replicate (cap - 31) 0"
    proof -
      have "replicate (cap - 31) (0::byte) = 0 # replicate (cap - 32) 0"
        using cap by (cases "cap - 31") (simp_all add: sz_def)
      then show ?thesis by (simp add: p4_def)
    qed
    then show ?thesis
      using write_string_gap[of 22 p3 3 "ascii '' n,,n=,r=''" "cap - 19"] cap
      by (simp add: l3 length_ascii sz_def)
  qed
  have w5: "pgvictoria_write_string (p4 @ replicate (cap - 31) 0) 31 nounce
            = Some (p5 @ [0] @ replicate (cap - Suc sz) 0)"
    using write_string_at_end[of 31 p4 nounce "cap - 31"] cap
    by (simp add: p5_def l4 sz_def n_def)
  have sz: "1 + 4 + 13 + 4 + 9 + n = sz" by (simp add: sz_def)
  have res: "pgvictoria_create_auth_scram256_response nounce
        = Some \<lparr>kind = chr CHR ''p'', mlength = sz, data = p5 @ [0] @ replicate (cap - Suc sz) 0\<rparr>"
    unfolding pgvictoria_create_auth_scram256_response_def Let_def n_def[symmetric]
    by (simp only: sz allocate_message_def cap_def[symmetric] message.select_convs
          message.update_convs Option.bind.simps w1 w2 w3 w4 w5)
  have "p5 = [chr CHR ''p''] @ be32 (of_nat (30 + n))
                         @ ascii ''SCRAM-SHA-256'' @ [0] @ [0, 0, 0]
                         @ ascii '' n,,n=,r='' @ nounce"
    by (simp add: p5_def p4_def p3_def p2_def p1_def sz_def numeral_3_eq_3)
  then show ?thesis
    using res by (simp add: sz_def n_def cap_def)
qed

lemma startup_data:
  assumes nz: "(51 + length username + length database) mod 512 \<noteq> 0"
  shows "pgvictoria_create_startup_message username database False
         = Some \<lparr>kind = 0, mlength = 51 + length username + length database,
                 data = (be32 (of_nat (51 + length username + length database)) @ be32 196608
                         @ ascii ''user'' @ [0] @ username @ [0]
                         @ ascii ''database'' @ [0] @ database @ [0]
                         @ ascii ''application_name'' @ [0] @ ascii ''pgvictoria'') @ [0]
                        @ replicate (pgvictoria_get_aligned_size (51 + length username + length database)
                                     - Suc (51 + length username + length database)) 0\<rparr>"
proof -
  define us where "us = length username"
  define ds where "ds = length database"
  define sz where "sz = 51 + us + ds"
  define cap where "cap = pgvictoria_get_aligned_size sz"
  have cap: "sz < cap"
    using nz aligned_size_gt[of sz] by (simp add: sz_def cap_def us_def ds_def)
  define p1 where "p1 = be32 (of_nat sz)"
  define p2 where "p2 = p1 @ be32 196608"
  define p3 where "p3 = p2 @ ascii ''user'' @ [0]"
  define p4 where "p4 = p3 @ username @ [0]"
  define p5 where "p5 = p4 @ ascii ''database'' @ [0]"
  define p6 where "p6 = p5 @ database @ [0]"
  define p7 where "p7 = p6 @ ascii ''application_name'' @ [0]"
  define p8 where "p8 = p7 @ ascii ''pgvictoria''"
  have l1: "length p1 = 4" by (simp add: p1_def length_be32)
  have l2: "length p2 = 8" by (simp add: p2_def l1 length_be32)
  have l3: "length p3 = 13" by (simp add: p3_def l2 length_ascii)
  have l4: "length p4 = 13 + us + 1" by (simp add: p4_def l3 us_def)
  have l5: "length p5 = 13 + us + 1 + 9" by (simp add: p5_def l4 length_ascii)
  have l6: "length p6 = 13 + us + 1 + 9 + ds + 1" by (simp add: p6_def l5 ds_def)
  have l7: "length p7 = 13 + us + 1 + 9 + ds + 1 + 17" by (simp add: p7_def l6 length_ascii)
  have l8: "length p8 = sz" by (simp add: p8_def l7 length_ascii sz_def)
  have w1: "pgvictoria_write_int32 (replicate cap 0) 0 (of_nat sz) = Some (p1 @ replicate (cap - 4) 0)"
    using write_int32_at_end[of 0 "[]" cap] cap by (simp add: p1_def sz_def)
  have w2: "pgvictoria_write_int32 (p1 @ replicate (cap - 4) 0) 4 196608 = Some (p2 @ replicate (cap - 8) 0)"
    using write_int32_at_end[of 4 p1 "cap - 4"] cap by (simp add: p2_def l1 sz_def)
  have w3: "pgvictoria_write_string (p2 @ replicate (cap - 8) 0) 8 (ascii ''user'') = Some (p3 @ replicate (cap - 13) 0)"
    using write_string_at_end[of 8 p2 "ascii ''user''" "cap - 8"] cap
    by (simp add: p3_def l2 length_ascii sz_def)
  have w4: "pgvictoria_write_string (p3 @ replicate (cap - 13) 0) 13 username = Some (p4 @ replicate (cap - (13 + us + 1)) 0)"
    using write_string_at_end[of 13 p3 username "cap - 13"] cap
    by (simp add: p4_def l3 sz_def us_def)
  have w5: "pgvictoria_write_string (p4 @ replicate (cap - (13 + us + 1)) 0) (13 + us + 1) (ascii ''database'')
            = Some (p5 @ replicate (cap - (13 + us + 1 + 9)) 0)"
    using write_string_at_end[of "13 + us + 1" p4 "ascii ''database''" "cap - (13 + us + 1)"] cap
    by (simp add: p5_def l4 length_ascii sz_def)
  have w6: "pgvictoria_write_string (p5 @ replicate (cap - (13 + us + 1 + 9)) 0) (13 + us + 1 + 9) database
            = Some (p6 @ replicate (cap - (13 + us + 1 + 9 + ds + 1)) 0)"
    using write_string_at_end[of "13 + us + 1 + 9" p5 database "cap - (13 + us + 1 + 9)"] cap
    by (simp add: p6_def l5 sz_def ds_def)
  have w7: "pgvictoria_write_string (p6 @ replicate (cap - (13 + us + 1 + 9 + ds + 1)) 0)
              (13 + us + 1 + 9 + ds + 1) (ascii ''application_name'')
            = Some (p7 @ replicate (cap - (13 + us + 1 + 9 + ds + 1 + 17)) 0)"
    using write_string_at_end[of "13 + us + 1 + 9 + ds + 1" p6 "ascii ''application_name''"
            "cap - (13 + us + 1 + 9 + ds + 1)"] cap
    by (simp add: p7_def l6 length_ascii sz_def)
  have w8: "pgvictoria_write_string (p7 @ replicate (cap - (13 + us + 1 + 9 + ds + 1 + 17)) 0)
              (13 + us + 1 + 9 + ds + 1 + 17) (ascii ''pgvictoria'')
            = Some (p8 @ [0] @ replicate (cap - Suc sz) 0)"
    using write_string_at_end[of "13 + us + 1 + 9 + ds + 1 + 17" p7 "ascii ''pgvictoria''"
            "cap - (13 + us + 1 + 9 + ds + 1 + 17)"] cap
    by (simp add: p8_def l7 length_ascii sz_def)
  have sz: "4 + 4 + 4 + 1 + us + 1 + 8 + 1 + ds + 1 + 17 + 9 + 1 + 0 = sz"
    by (simp add: sz_def)
  have res: "pgvictoria_create_startup_message username database False
        = Some \<lparr>kind = 0, mlength = sz, data = p8 @ [0] @ replicate (cap - Suc sz) 0\<rparr>"
    unfolding pgvictoria_create_startup_message_def Let_def us_def[symmetric] ds_def[symmetric]
    by (simp only: sz allocate_message_def cap_def[symmetric] message.select_convs
          message.update_convs Option.bind.simps if_False w1 w2 w3 w4 w5 w6 w7 w8)
  have "p8 = be32 (of_nat sz) @ be32 196608
                 @ ascii ''user'' @ [0] @ username @ [0]
                 @ ascii ''database'' @ [0] @ database @ [0]
                 @ ascii ''application_name'' @ [0] @ ascii ''pgvictoria''"
    by (simp add: p8_def p7_def p6_def p5_def p4_def p3_def p2_def p1_def)
  then show ?thesis
    using res by (simp add: sz_def us_def ds_def cap_def)
qed

lemma wire_prefix:
  assumes "length p = n"
  shows "wire \<lparr>kind = k, mlength = n, data = p @ rest\<rparr> = p"
  using assms by (simp add: wire_def)

lemma ascii_space: "ascii '' n,,n=,r='' = 32 # ascii ''n,,n=,r=''"
  by (simp add: ascii_def chr_def)

lemma be32_32: "be32 32 = [0, 0, 0, 32]"
  by (simp add: be32_def)

lemma scram_length_field:
  assumes "length p = 19"
  shows "pgvictoria_read_int32 (p @ [0, 0, 0] @ ascii '' n,,n=,r='' @ rest) 19 = Some 32"
proof -
  have e: "p @ [0, 0, 0] @ ascii '' n,,n=,r='' @ rest = p @ be32 32 @ (ascii ''n,,n=,r='' @ rest)"
    by (simp add: ascii_space be32_32)
  show ?thesis
    unfolding e using read_int32_at[of p 32 "ascii ''n,,n=,r='' @ rest"] assms by simp
qed


section \<open>Parsing the frames of a reply stream\<close>

lemma extract_from_data_loop_stream:
  assumes "list_all well_formed_frame fs"
    and "length pre + length (stream_bytes fs) < 2 ^ 64"
  shows "extract_message_from_data_loop t (pre @ stream_bytes fs)
           (length pre + length (stream_bytes fs)) (length pre)
         = Some (Some (case find (\<lambda>f. fst f = t) fs of
                         None \<Rightarrow> Inl 1
                       | Some f \<Rightarrow> Inr \<lparr>kind = t, mlength = length (frame_bytes f),
                                         data = frame_bytes f\<rparr>))"
  using assms
proof (induction fs arbitrary: pre)
  case Nil
  show ?case by (subst extract_message_from_data_loop.simps) (simp add: stream_bytes_def)
next
  case (Cons f fs)
  have wf: "well_formed_frame f" and wfs: "list_all well_formed_frame fs"
    using Cons.prems(1) by simp_all
  have sb: "stream_bytes (f # fs) = frame_bytes f @ stream_bytes fs"
    by (simp add: stream_bytes_def)
  have bound: "length pre + length (frame_bytes f) < 2 ^ 64"
    using Cons.prems(2) by (simp add: sb)
  have lt: "length pre < length pre + length (stream_bytes (f # fs))"
    by (simp add: sb length_frame_bytes)
  show ?case
  proof (cases "t = fst f")
    case True
    then show ?thesis
      using lt extract_message_offset_frame[OF wf bound, of "stream_bytes fs"]
      by (subst extract_message_from_data_loop.simps) (simp add: sb read_byte_frame)
  next
    case False
    have ih: "extract_message_from_data_loop t ((pre @ frame_bytes f) @ stream_bytes fs)
                (length (pre @ frame_bytes f) + length (stream_bytes fs)) (length (pre @ frame_bytes f))
              = Some (Some (case find (\<lambda>f. fst f = t) fs of
                         None \<Rightarrow> Inl 1
                       | Some f \<Rightarrow> Inr \<lparr>kind = t, mlength = length (frame_bytes f),
                                         data = frame_bytes f\<rparr>))"
      using Cons.prems(2) by (intro Cons.IH[OF wfs]) (simp add: sb)
    have nf: "fst f \<noteq> t" using False by simp
    show ?thesis
      using False nf lt ih
      by (subst extract_message_from_data_loop.simps)
         (simp add: sb read_byte_frame read_int32_frame_Suc
            next_offset_frame[OF wf bound, simplified] add.assoc)
  qed
qed

lemma read_string_at:
  assumes "0 \<notin> set s"
  shows "pgvictoria_read_string (pre @ s @ 0 # rest) (length pre) = Some s"
  using assms by (auto simp add: pgvictoria_read_string_def takeWhile_tail)

lemma read_int16_at:
  "pgvictoria_read_int16 (pre @ be16 w @ rest) (length pre) = Some w"
proof -
  have "length (be16 w) = 2" by (simp add: be16_def)
  then show ?thesis
    using read_bytes_at[of pre "be16 w" rest]
    by (simp add: pgvictoria_read_int16_def be_value_be16)
qed

lemma sint_of_nat_16:
  assumes "n < 2 ^ 15"
  shows "sint (of_nat n :: 16 word) = int n"
proof -
  have "int n < int (2 ^ 15)" using assms by (simp only: of_nat_less_iff)
  then have lt: "int n < 2 ^ 15" by simp
  have ge: "- (2 ^ 15) \<le> int n" by simp
  have "signed_take_bit 15 (int n) = int n"
    using ge lt by (rule signed_take_bit_int_eq_self)
  moreover have "sint (of_nat n :: 16 word) = signed_take_bit 15 (int n)"
    by (simp only: signed_of_nat) simp
  ultimately show ?thesis by simp
qed

lemma D_cells_cells:
  assumes "list_all well_formed_cell cells"
  shows "D_cells (length cells) (pre @ concat (map cell_bytes cells) @ rest) (length pre)
         = Some (map built_cell cells)"
  using assms
proof (induction cells arbitrary: pre)
  case Nil
  show ?case by simp
next
  case (Cons c cells)
  have wfs: "list_all well_formed_cell cells" using Cons.prems by simp
  show ?case
  proof (cases c)
    case None
    have r: "pgvictoria_read_int32 (pre @ be32 (- 1) @ concat (map cell_bytes cells) @ rest) (length pre)
             = Some (- 1)"
      by (rule read_int32_at)
    have ih: "D_cells (length cells) ((pre @ be32 (- 1)) @ concat (map cell_bytes cells) @ rest)
                (length (pre @ be32 (- 1))) = Some (map built_cell cells)"
      by (rule Cons.IH[OF wfs])
    show ?thesis
      using r ih by (simp add: None length_be32)
  next
    case (Some v)
    have lv: "length v < 2 ^ 31" using Cons.prems Some by simp
    have s: "sint (of_nat (length v) :: 32 word) = int (length v)"
      using lv by (rule sint_of_nat_32)
    have r: "pgvictoria_read_int32 (pre @ be32 (of_nat (length v)) @ v @ concat (map cell_bytes cells) @ rest)
               (length pre) = Some (of_nat (length v))"
      by (rule read_int32_at)
    have b: "read_bytes ((pre @ be32 (of_nat (length v))) @ v @ concat (map cell_bytes cells) @ rest)
               (length (pre @ be32 (of_nat (length v)))) (length v) = Some v"
      by (rule read_bytes_at)
    have ih: "D_cells (length cells)
                ((pre @ be32 (of_nat (length v)) @ v) @ concat (map cell_bytes cells) @ rest)
                (length (pre @ be32 (of_nat (length v)) @ v)) = Some (map built_cell cells)"
      by (rule Cons.IH[OF wfs])
    show ?thesis
    proof (cases "v = []")
      case True
      show ?thesis
        using r ih s unfolding True by (simp add: Some True length_be32)
    next
      case False
      then show ?thesis
        using r b ih s by (simp add: Some length_be32 add.assoc)
    qed
  qed
qed

lemma create_D_tuple_frame:
  assumes "list_all well_formed_cell cells"
  shows "create_D_tuple (int (length cells))
           \<lparr>kind = k, mlength = n, data = frame_bytes (message_frame (DataRow cells))\<rparr>
         = Some (map built_cell cells)"
proof -
  let ?pre = "chr CHR ''D'' # be32 (of_nat (4 + length (snd (message_frame (DataRow cells)))))
              @ be16 (of_nat (length cells))"
  have l: "length ?pre = 7" by (simp add: length_be32 be16_def)
  have d: "frame_bytes (message_frame (DataRow cells)) = ?pre @ concat (map cell_bytes cells) @ []"
    by (simp add: frame_bytes_def)
  show ?thesis
    unfolding create_D_tuple_def
    using D_cells_cells[OF assms, of ?pre "[]"] l
    by (simp only: message.select_convs d nat_int)
qed

lemma create_C_tuple_frame:
  assumes "well_formed_frame (message_frame (CommandComplete tag))"
  shows "create_C_tuple \<lparr>kind = k, mlength = n, data = frame_bytes (message_frame (CommandComplete tag))\<rparr>
         = Some [built_cell (Some tag)]"
proof -
  have lt: "5 + length tag < 2 ^ 31"
    using assms by (simp add: well_formed_frame_def)
  have s: "sint (of_nat (5 + length tag) :: 32 word) = int (5 + length tag)"
    using lt by (rule sint_of_nat_32)
  have d: "frame_bytes (message_frame (CommandComplete tag))
           = [chr CHR ''C''] @ be32 (of_nat (5 + length tag)) @ (tag @ [0])"
    by (simp add: frame_bytes_def)
  have r: "pgvictoria_read_int32 (frame_bytes (message_frame (CommandComplete tag))) 1
           = Some (of_nat (5 + length tag))"
    unfolding d using read_int32_at[of "[chr CHR ''C'']" "of_nat (5 + length tag)" "tag @ [0]"] by simp
  have d2: "frame_bytes (message_frame (CommandComplete tag))
           = (chr CHR ''C'' # be32 (of_nat (5 + length tag))) @ tag @ [0]"
    by (simp add: frame_bytes_def)
  have b: "read_bytes (frame_bytes (message_frame (CommandComplete tag))) 5 (length tag) = Some tag"
    unfolding d2
    using read_bytes_at[of "chr CHR ''C'' # be32 (of_nat (5 + length tag))" tag "[0]"]
    by (simp add: length_be32)
  show ?thesis
    unfolding create_C_tuple_def
    using r b s by (cases "tag = []") simp_all
qed

lemma skip_columns_cols:
  assumes "list_all well_formed_column cols" and "i \<le> length cols"
  shows "skip_columns i (pre @ concat (map column_bytes cols) @ rest) (length pre)
         = Some (length pre + length (concat (map column_bytes (take i cols))))"
  using assms
proof (induction cols arbitrary: pre i)
  case Nil
  then show ?case by simp
next
  case (Cons c cols)
  obtain name desc where c: "c = (name, desc)" by (cases c)
  have wc: "0 \<notin> set name" "length desc = 18" and wfs: "list_all well_formed_column cols"
    using Cons.prems(1) c by simp_all
  show ?case
  proof (cases i)
    case 0
    then show ?thesis by simp
  next
    case (Suc j)
    have j: "j \<le> length cols" using Cons.prems(2) Suc by simp
    have r: "pgvictoria_read_string (pre @ name @ 0 # desc @ concat (map column_bytes cols) @ rest)
               (length pre) = Some name"
      using wc(1) by (rule read_string_at)
    have ih: "skip_columns j ((pre @ column_bytes c) @ concat (map column_bytes cols) @ rest)
                (length (pre @ column_bytes c))
              = Some (length (pre @ column_bytes c) + length (concat (map column_bytes (take j cols))))"
      by (rule Cons.IH[OF wfs j])
    show ?thesis
      using r ih wc(2) by (simp add: Suc c ac_simps)
  qed
qed

lemma row_description_bytes:
  "frame_bytes (message_frame (RowDescription cols))
   = (chr CHR ''T'' # be32 (of_nat (4 + length (snd (message_frame (RowDescription cols)))))
      @ be16 (of_nat (length cols))) @ concat (map column_bytes cols) @ []"
  by (simp add: frame_bytes_def)

lemma row_description_count:
  "pgvictoria_read_int16 (frame_bytes (message_frame (RowDescription cols))) 5
   = Some (of_nat (length cols))"
proof -
  let ?h = "chr CHR ''T'' # be32 (of_nat (4 + length (snd (message_frame (RowDescription cols)))))"
  have "frame_bytes (message_frame (RowDescription cols))
        = ?h @ be16 (of_nat (length cols)) @ concat (map column_bytes cols)"
    by (simp add: frame_bytes_def)
  moreover have "length ?h = 5" by (simp add: length_be32)
  ultimately show ?thesis
    using read_int16_at[of ?h "of_nat (length cols)" "concat (map column_bytes cols)"] by simp
qed

lemma get_number_of_columns_frame:
  assumes "length cols < 2 ^ 15"
  shows "get_number_of_columns
           \<lparr>kind = chr CHR ''T'', mlength = n, data = frame_bytes (message_frame (RowDescription cols))\<rparr>
         = Some (int (length cols))"
  using sint_of_nat_16[OF assms]
  by (simp add: get_number_of_columns_def row_description_count del: message_frame.simps)

lemma get_column_name_frame:
  assumes "length cols < 2 ^ 15" and "list_all well_formed_column cols" and "i < length cols"
  shows "get_column_name
           \<lparr>kind = chr CHR ''T'', mlength = n, data = frame_bytes (message_frame (RowDescription cols))\<rparr>
           (int i)
         = Some (Inr (fst (cols ! i)))"
proof -
  let ?d = "frame_bytes (message_frame (RowDescription cols))"
  let ?pre = "chr CHR ''T'' # be32 (of_nat (4 + length (snd (message_frame (RowDescription cols)))))
              @ be16 (of_nat (length cols))"
  have l: "length ?pre = 7" by (simp add: length_be32 be16_def)
  obtain name desc where c: "cols ! i = (name, desc)" by (cases "cols ! i")
  have wc: "0 \<notin> set name"
    using assms(2,3) c by (auto simp add: list_all_length)
  have split: "cols = take i cols @ (name, desc) # drop (Suc i) cols"
    using id_take_nth_drop[OF assms(3)] c by simp
  have sk: "skip_columns i ?d 7 = Some (7 + length (concat (map column_bytes (take i cols))))"
    using skip_columns_cols[OF assms(2), of i ?pre "[]"] assms(3) l
    by (simp only: row_description_bytes)
  let ?q = "?pre @ concat (map column_bytes (take i cols))"
  have "concat (map column_bytes cols)
        = concat (map column_bytes (take i cols)) @ name @ 0 # desc
          @ concat (map column_bytes (drop (Suc i) cols))"
    by (subst split) simp
  then have d: "?d = ?q @ name @ 0 # (desc @ concat (map column_bytes (drop (Suc i) cols)))"
    by (simp add: frame_bytes_def)
  have lq: "length ?q = 7 + length (concat (map column_bytes (take i cols)))"
    using l by simp
  have rs: "pgvictoria_read_string ?d (7 + length (concat (map column_bytes (take i cols)))) = Some name"
    using read_string_at[OF wc, of ?q "desc @ concat (map column_bytes (drop (Suc i) cols))"]
    unfolding lq d[symmetric] .
  show ?thesis
    unfolding get_column_name_def
    using sint_of_nat_16[OF assms(1)] assms(3) sk rs
    by (simp add: row_description_count c del: message_frame.simps)
qed

lemma copy_names_cols:
  assumes "length cols < 2 ^ 15" and "list_all well_formed_column cols"
    and "i + k = length cols" and "length cols \<le> MAX_NUMBER_OF_COLUMNS"
    and "list_all (\<lambda>c. length (fst c) < MISC_LENGTH) cols"
    and "length ns = MAX_NUMBER_OF_COLUMNS"
  shows "copy_names
           \<lparr>kind = chr CHR ''T'', mlength = n, data = frame_bytes (message_frame (RowDescription cols))\<rparr>
           i k ns
         = Some (Inr (take i ns @ map fst (drop i cols) @ drop (length cols) ns))"
  using assms(3,6)
proof (induction k arbitrary: i ns)
  case 0
  then show ?case by simp
next
  case (Suc k)
  let ?rmsg = "\<lparr>kind = chr CHR ''T'', mlength = n,
                 data = frame_bytes (message_frame (RowDescription cols))\<rparr>"
  have i: "i < length cols" using Suc.prems(1) by simp
  have g: "get_column_name ?rmsg (int i) = Some (Inr (fst (cols ! i)))"
    using assms(1,2) i by (rule get_column_name_frame)
  have b1: "i < MAX_NUMBER_OF_COLUMNS" using i assms(4) by simp
  have b2: "length (fst (cols ! i)) < MISC_LENGTH"
    using assms(5) i by (simp add: list_all_length)
  have ih: "copy_names ?rmsg (Suc i) k (ns[i := fst (cols ! i)])
            = Some (Inr (take (Suc i) (ns[i := fst (cols ! i)]) @ map fst (drop (Suc i) cols)
                         @ drop (length cols) (ns[i := fst (cols ! i)])))"
    using Suc.prems by (intro Suc.IH) simp_all
  have ins: "i < length ns" using b1 Suc.prems(2) by simp
  have t: "take (Suc i) (ns[i := fst (cols ! i)]) = take i ns @ [fst (cols ! i)]"
    using ins by (simp add: take_Suc_conv_app_nth)
  have d: "drop (length cols) (ns[i := fst (cols ! i)]) = drop (length cols) ns"
    using i by simp
  have c: "drop i cols = cols ! i # drop (Suc i) cols"
    using i by (simp add: Cons_nth_drop_Suc)
  show ?case
    using g b1 b2 ih by (simp add: t d c del: message_frame.simps)
qed

lemma well_formed_message_frame:
  assumes "well_formed_message m"
  shows "well_formed_frame (message_frame m)"
  using assms by (cases m) (simp_all add: well_formed_frame_def)

lemma tag_distinct:
  "chr CHR ''T'' \<noteq> chr CHR ''D''" "chr CHR ''C'' \<noteq> chr CHR ''D''" "chr CHR ''Z'' \<noteq> chr CHR ''D''"
  "chr CHR ''T'' \<noteq> chr CHR ''C''" "chr CHR ''D'' \<noteq> chr CHR ''C''" "chr CHR ''Z'' \<noteq> chr CHR ''C''"
  "chr CHR ''D'' \<noteq> chr CHR ''T''" "chr CHR ''C'' \<noteq> chr CHR ''T''" "chr CHR ''Z'' \<noteq> chr CHR ''T''"
  "chr CHR ''T'' \<noteq> chr CHR ''E''" "chr CHR ''D'' \<noteq> chr CHR ''E''" "chr CHR ''C'' \<noteq> chr CHR ''E''"
  "chr CHR ''Z'' \<noteq> chr CHR ''E''"
  "chr CHR ''T'' \<noteq> chr CHR ''Z''" "chr CHR ''D'' \<noteq> chr CHR ''Z''" "chr CHR ''C'' \<noteq> chr CHR ''Z''"
  by (simp_all add: chr_def)

lemma reply_stream_Cons:
  "reply_stream (m # msgs) = frame_bytes (message_frame m) @ reply_stream msgs"
  by (simp add: reply_stream_def stream_bytes_def)

lemma collect_D_tuples_stream:
  assumes "list_all well_formed_message msgs"
    and "length pre + length (reply_stream msgs) < 2 ^ 64"
    and "list_all (\<lambda>cells. length cells = n) (data_rows msgs)"
  shows "collect_D_tuples (int n) (pre @ reply_stream msgs)
           (length pre + length (reply_stream msgs)) (length pre) ts
         = Some (Some (ts @ map (map built_cell) (data_rows msgs)))"
  using assms
proof (induction msgs arbitrary: pre ts)
  case Nil
  show ?case by (subst collect_D_tuples.simps) (simp add: reply_stream_def stream_bytes_def)
next
  case (Cons m msgs)
  let ?f = "message_frame m"
  have wm: "well_formed_message m" and wms: "list_all well_formed_message msgs"
    using Cons.prems(1) by simp_all
  have wf: "well_formed_frame ?f" using wm by (rule well_formed_message_frame)
  have bound: "length pre + length (frame_bytes ?f) < 2 ^ 64"
    using Cons.prems(2) by (simp add: reply_stream_Cons)
  have bound': "length (pre @ frame_bytes ?f) + length (reply_stream msgs) < 2 ^ 64"
    using Cons.prems(2) by (simp add: reply_stream_Cons)
  have lt: "length pre < length pre + length (reply_stream (m # msgs))"
    by (simp add: reply_stream_Cons length_frame_bytes)
  have ex: "pgvictoria_extract_message_offset (length pre) (pre @ frame_bytes ?f @ reply_stream msgs)
            = Some (length pre + length (frame_bytes ?f),
                    \<lparr>kind = fst ?f, mlength = length (frame_bytes ?f), data = frame_bytes ?f\<rparr>)"
    using wf bound by (rule extract_message_offset_frame)
  have rows: "list_all (\<lambda>cells. length cells = n) (data_rows msgs)"
    using Cons.prems(3) by (cases m) simp_all
  have ih: "\<And>ts'. collect_D_tuples (int n) ((pre @ frame_bytes ?f) @ reply_stream msgs)
              (length (pre @ frame_bytes ?f) + length (reply_stream msgs)) (length (pre @ frame_bytes ?f)) ts'
            = Some (Some (ts' @ map (map built_cell) (data_rows msgs)))"
    using wms bound' rows by (rule Cons.IH)
  show ?case
  proof (cases m)
    case (DataRow cells)
    have n: "length cells = n" using Cons.prems(3) DataRow by simp
    have wc: "list_all well_formed_cell cells" using wm DataRow by simp
    have cr: "create_D_tuple (int n)
                \<lparr>kind = fst ?f, mlength = length (frame_bytes ?f), data = frame_bytes ?f\<rparr>
              = Some (map built_cell cells)"
      using create_D_tuple_frame[OF wc] unfolding n DataRow .
    have k: "fst ?f = chr CHR ''D''" by (simp add: DataRow)
    show ?thesis
      using lt ex cr ih[of "ts @ [map built_cell cells]"] k
      by (subst collect_D_tuples.simps)
         (simp add: reply_stream_Cons DataRow add.assoc del: message_frame.simps)
  next
    case (RowDescription cols)
    have k: "fst ?f \<noteq> chr CHR ''D''" by (simp add: RowDescription tag_distinct)
    show ?thesis
      using lt ex ih[of ts] k
      by (subst collect_D_tuples.simps)
         (simp add: reply_stream_Cons RowDescription add.assoc del: message_frame.simps)
  next
    case (CommandComplete tag)
    have k: "fst ?f \<noteq> chr CHR ''D''" by (simp add: CommandComplete tag_distinct)
    show ?thesis
      using lt ex ih[of ts] k
      by (subst collect_D_tuples.simps)
         (simp add: reply_stream_Cons CommandComplete add.assoc del: message_frame.simps)
  next
    case (ReadyForQuery status)
    have k: "fst ?f \<noteq> chr CHR ''D''" by (simp add: ReadyForQuery tag_distinct)
    show ?thesis
      using lt ex ih[of ts] k
      by (subst collect_D_tuples.simps)
         (simp add: reply_stream_Cons ReadyForQuery add.assoc del: message_frame.simps)
  next
    case (Other_message t payload)
    have k: "fst ?f \<noteq> chr CHR ''D''" using wm by (simp add: Other_message)
    show ?thesis
      using lt ex ih[of ts] k
      by (subst collect_D_tuples.simps)
         (simp add: reply_stream_Cons Other_message add.assoc del: message_frame.simps)
  qed
qed

lemma find_row_description:
  assumes "list_all well_formed_message msgs"
  shows "find (\<lambda>f. fst f = chr CHR ''T'') (map message_frame msgs)
         = map_option (\<lambda>cols. message_frame (RowDescription cols)) (first_row_description msgs)"
  using assms
proof (induction msgs)
  case Nil
  show ?case by simp
next
  case (Cons m msgs)
  then show ?case by (cases m) (simp_all add: tag_distinct)
qed

lemma find_command_complete:
  assumes "list_all well_formed_message msgs"
  shows "find (\<lambda>f. fst f = chr CHR ''C'') (map message_frame msgs)
         = map_option (\<lambda>tag. message_frame (CommandComplete tag)) (first_command_complete msgs)"
  using assms
proof (induction msgs)
  case Nil
  show ?case by simp
next
  case (Cons m msgs)
  then show ?case by (cases m) (simp_all add: tag_distinct)
qed

lemma first_row_description_well_formed:
  assumes "list_all well_formed_message msgs" and "first_row_description msgs = Some cols"
  shows "well_formed_message (RowDescription cols)"
  using assms
proof (induction msgs)
  case Nil
  then show ?case by simp
next
  case (Cons m msgs)
  then show ?case by (cases m) auto
qed

lemma first_command_complete_well_formed:
  assumes "list_all well_formed_message msgs" and "first_command_complete msgs = Some tag"
  shows "well_formed_message (CommandComplete tag)"
  using assms
proof (induction msgs)
  case Nil
  then show ?case by simp
next
  case (Cons m msgs)
  then show ?case by (cases m) auto
qed

lemma has_tag_find:
  "t \<in> fst ` set fs \<longleftrightarrow> find (\<lambda>f. fst f = t) fs \<noteq> None"
  by (induction fs) auto

lemma well_formed_frames:
  assumes "list_all well_formed_message msgs"
  shows "list_all well_formed_frame (map message_frame msgs)"
  using assms by (induction msgs) (simp_all add: well_formed_message_frame del: message_frame.simps)

lemma has_message_reply_stream:
  assumes "list_all well_formed_message msgs" and "length (reply_stream msgs) < 2 ^ 64"
  shows "pgvictoria_has_message t (reply_stream msgs) (length (reply_stream msgs))
         = Some (Some (t \<in> message_tag ` set msgs))"
proof -
  have "fst ` set (map message_frame msgs) = message_tag ` set msgs"
    by (auto simp add: message_tag_def image_iff)
  then show ?thesis
    using has_message_stream[OF well_formed_frames[OF assms(1)], of t] assms(2)
    by (simp add: reply_stream_def)
qed

lemma extract_from_reply_stream:
  assumes "list_all well_formed_message msgs" and "length (reply_stream msgs) < 2 ^ 64"
  shows "pgvictoria_extract_message_from_data t (reply_stream msgs) (length (reply_stream msgs))
         = Some (Some (case find (\<lambda>f. fst f = t) (map message_frame msgs) of
                         None \<Rightarrow> Inl 1
                       | Some f \<Rightarrow> Inr \<lparr>kind = t, mlength = length (frame_bytes f),
                                         data = frame_bytes f\<rparr>))"
  using extract_from_data_loop_stream[OF well_formed_frames[OF assms(1)], of "[]" t] assms(2)
  by (simp add: pgvictoria_extract_message_from_data_def reply_stream_def)

lemma row_description_response_stream:
  assumes wf: "list_all well_formed_message msgs"
    and len: "length (reply_stream msgs) < 2 ^ 64"
    and first: "first_row_description msgs = Some cols"
    and cap: "length cols \<le> MAX_NUMBER_OF_COLUMNS"
    and short: "list_all (\<lambda>c. length (fst c) < MISC_LENGTH) cols"
    and rows: "list_all (\<lambda>cells. length cells = length cols) (data_rows msgs)"
  shows "row_description_response (reply_stream msgs) (length (reply_stream msgs))
         = Some (Some (Inr \<lparr>number_of_columns = int (length cols),
                            names = map fst cols @ replicate (MAX_NUMBER_OF_COLUMNS - length cols) [],
                            tuples = map (map built_cell) (data_rows msgs),
                            is_command_complete = False\<rparr>))"
proof -
  let ?rmsg = "\<lparr>kind = chr CHR ''T'',
                 mlength = length (frame_bytes (message_frame (RowDescription cols))),
                 data = frame_bytes (message_frame (RowDescription cols))\<rparr>"
  have wT: "well_formed_message (RowDescription cols)"
    using wf first by (rule first_row_description_well_formed)
  have c15: "length cols < 2 ^ 15" and wcols: "list_all well_formed_column cols"
    using wT by simp_all
  have ex: "pgvictoria_extract_message_from_data (chr CHR ''T'') (reply_stream msgs)
              (length (reply_stream msgs)) = Some (Some (Inr ?rmsg))"
    using extract_from_reply_stream[OF wf len, of "chr CHR ''T''"]
    by (simp add: find_row_description[OF wf] first del: message_frame.simps)
  have nc: "get_number_of_columns ?rmsg = Some (int (length cols))"
    using c15 by (rule get_number_of_columns_frame)
  have cn: "copy_names ?rmsg 0 (length cols) (replicate MAX_NUMBER_OF_COLUMNS [])
            = Some (Inr (map fst cols @ replicate (MAX_NUMBER_OF_COLUMNS - length cols) []))"
    using copy_names_cols[OF c15 wcols _ cap short, of 0 "length cols" "replicate MAX_NUMBER_OF_COLUMNS []"]
    by simp
  have cd: "collect_D_tuples (int (length cols)) (reply_stream msgs) (length (reply_stream msgs)) 0 []
            = Some (Some (map (map built_cell) (data_rows msgs)))"
    using collect_D_tuples_stream[OF wf _ rows, of "[]" "[]"] len by simp
  show ?thesis
    unfolding row_description_response_def
    by (simp add: ex nc cn cd empty_response_def del: message_frame.simps)
qed

lemma command_complete_response_stream:
  assumes wf: "list_all well_formed_message msgs"
    and len: "length (reply_stream msgs) < 2 ^ 64"
    and first: "first_command_complete msgs = Some tag"
  shows "command_complete_response (reply_stream msgs) (length (reply_stream msgs))
         = Some (Some (Inr \<lparr>number_of_columns = 1,
                            names = replicate MAX_NUMBER_OF_COLUMNS [],
                            tuples = [[built_cell (Some tag)]],
                            is_command_complete = True\<rparr>))"
proof -
  let ?rmsg = "\<lparr>kind = chr CHR ''C'',
                 mlength = length (frame_bytes (message_frame (CommandComplete tag))),
                 data = frame_bytes (message_frame (CommandComplete tag))\<rparr>"
  have wC: "well_formed_frame (message_frame (CommandComplete tag))"
    using first_command_complete_well_formed[OF wf first] by simp
  have ex: "pgvictoria_extract_message_from_data (chr CHR ''C'') (reply_stream msgs)
              (length (reply_stream msgs)) = Some (Some (Inr ?rmsg))"
    using extract_from_reply_stream[OF wf len, of "chr CHR ''C''"]
    by (simp add: find_command_complete[OF wf] first del: message_frame.simps)
  have ct: "create_C_tuple ?rmsg = Some [built_cell (Some tag)]"
    using wC by (rule create_C_tuple_frame)
  show ?thesis
    unfolding command_complete_response_def
    by (simp add: ex ct empty_response_def del: message_frame.simps built_cell.simps)
qed

lemma has_row_description:
  assumes "list_all well_formed_message msgs"
  shows "chr CHR ''T'' \<in> message_tag ` set msgs \<longleftrightarrow> first_row_description msgs \<noteq> None"
proof -
  have "fst ` set (map message_frame msgs) = message_tag ` set msgs"
    by (auto simp add: message_tag_def image_iff)
  then show ?thesis
    using has_tag_find[of "chr CHR ''T''" "map message_frame msgs"] find_row_description[OF assms]
    by simp
qed

lemma has_command_complete:
  assumes "list_all well_formed_message msgs"
  shows "chr CHR ''C'' \<in> message_tag ` set msgs \<longleftrightarrow> first_command_complete msgs \<noteq> None"
proof -
  have "fst ` set (map message_frame msgs) = message_tag ` set msgs"
    by (auto simp add: message_tag_def image_iff)
  then show ?thesis
    using has_tag_find[of "chr CHR ''C''" "map message_frame msgs"] find_command_complete[OF assms]
    by simp
qed

lemma classify_row_description:
  assumes wf: "list_all well_formed_message msgs"
    and len: "length (reply_stream msgs) < 2 ^ 64"
    and noE: "chr CHR ''E'' \<notin> message_tag ` set msgs"
    and first: "first_row_description msgs = Some cols"
  shows "classify_replies (reply_stream msgs) (length (reply_stream msgs))
         = row_description_response (reply_stream msgs) (length (reply_stream msgs))"
  unfolding classify_replies_def
  using noE first
  by (simp add: has_message_reply_stream[OF wf len] has_row_description[OF wf])

lemma classify_command_complete:
  assumes wf: "list_all well_formed_message msgs"
    and len: "length (reply_stream msgs) < 2 ^ 64"
    and noE: "chr CHR ''E'' \<notin> message_tag ` set msgs"
    and noT: "first_row_description msgs = None"
    and first: "first_command_complete msgs = Some tag"
  shows "classify_replies (reply_stream msgs) (length (reply_stream msgs))
         = command_complete_response (reply_stream msgs) (length (reply_stream msgs))"
  unfolding classify_replies_def
  using noE noT first
  by (simp add: has_message_reply_stream[OF wf len] has_row_description[OF wf]
        has_command_complete[OF wf])

lemma be32_minus_1: "be32 (- 1) = [255, 255, 255, 255]"
proof -
  have "unat (- 1 :: 32 word) = 4294967295"
    by (simp add: unsigned_minus_1_eq_mask mask_eq_exp_minus_1)
  then show ?thesis by (simp add: be32_def)
qed


section \<open>Reloading and loading the configuration\<close>

lemma copy_user_src: "copy_user dst src = src"
  by (cases dst, cases src) (simp add: copy_user_def)

lemma copy_users_set:
  "copy_users dst src is = (\<lambda>j. if j \<in> set is then src j else dst j)"
  by (induction "is" arbitrary: dst) (auto simp add: copy_user_src fun_eq_iff)

lemma copy_users_same: "copy_users us us is = us"
  by (simp add: copy_users_set fun_eq_iff)

lemma fst_copy_server: "fst (copy_server dst src) \<noteq> 0 \<longleftrightarrow> server_differs dst src"
  by (simp add: copy_server_def restart_string_def restart_int_def server_differs_def Let_def
        split: prod.split)

lemma server_differs_same: "\<not> server_differs s s"
  by (simp add: server_differs_def)

lemma copy_server_same: "copy_server s s = (0, [])"
  by (simp add: copy_server_def restart_string_def restart_int_def)

lemma copy_servers_result:
  "copy_servers dst src is (changed, ev)
   = (changed \<or> (\<exists>i\<in>set is. server_differs (dst i) (src i)),
      ev @ concat (map (\<lambda>i. snd (copy_server (dst i) (src i))) is))"
proof (induction "is" arbitrary: changed ev)
  case Nil
  show ?case by simp
next
  case (Cons i "is")
  obtain r l where c: "copy_server (dst i) (src i) = (r, l)" by (cases "copy_server (dst i) (src i)")
  have r: "r \<noteq> 0 \<longleftrightarrow> server_differs (dst i) (src i)"
    using fst_copy_server[of "dst i" "src i"] c by simp
  show ?case
    using r by (auto simp add: c Cons.IH)
qed

lemma transfer_configuration_changed:
  "fst (transfer_configuration config reload) \<longleftrightarrow>
     host config \<noteq> host reload
     \<or> log_type config \<noteq> log_type reload
     \<or> libev config \<noteq> libev reload
     \<or> hugepage config \<noteq> hugepage reload
     \<or> update_process_title config \<noteq> update_process_title reload
     \<or> unix_socket_dir config \<noteq> unix_socket_dir reload
     \<or> (\<exists>i<NUMBER_OF_SERVERS. server_differs (servers config i) (servers reload i))
     \<or> number_of_servers config \<noteq> number_of_servers reload"
  unfolding transfer_configuration_def Let_def
  by (auto simp add: restart_string_def restart_int_def copy_servers_result split: prod.split if_splits)

lemma transfer_configuration_log_level_only:
  "transfer_configuration config (config\<lparr>log_level := l\<rparr>) = (False, config\<lparr>log_level := l\<rparr>, [])"
  unfolding transfer_configuration_def Let_def
  by (simp add: restart_string_def restart_int_def copy_servers_result copy_users_same
        copy_server_same server_differs_same)

lemma char_of_119: "char_of (119::nat) = CHR ''w''"
  by code_simp

lemma example_user_line: "read_user_line example_evp example_base64_decode (ascii ''topsecret'') ''u:xy\<newline>''
  = Some (User_entry ''u'' ''w'')"
  by (simp add: read_user_line_def remove_leading_whitespace_and_comments_def isspace_def
      parse_user_entry_def strtok_def example_base64_decode_def pgvictoria_decrypt_def
      derive_key_iv_def aes_decrypt_def cipher_init_def example_evp_def get_cipher_def
      ENCRYPTION_AES_256_CBC_def EVP_MAX_KEY_LENGTH_def EVP_MAX_IV_LENGTH_def write_bytes_def
      ascii_def chr_def text_of_def c_string_def Let_def char_of_119)


lemma fgets_lines_example:
  "fgets_lines [] (example_users_file n) = replicate n ''u:xy\<newline>''"
proof (induction n)
  case 0
  show ?case by (simp add: example_users_file_def)
next
  case (Suc n)
  have "example_users_file (Suc n) = ''u:xy\<newline>'' @ example_users_file n"
    by (simp add: example_users_file_def)
  then show ?case
    using Suc.IH by (simp add: LINE_LENGTH_def)
qed

lemma read_user_lines_acceptable:
  assumes "list_all (acceptable_line lib b64 mk) lines"
  shows "\<exists>us' stores'. read_user_lines lib b64 mk lines (index, us, stores)
           = Some (False, index + length (filter (entry_line lib b64 mk) lines), us', stores')"
  using assms
proof (induction lines arbitrary: index us stores)
  case Nil
  show ?case by simp
next
  case (Cons line lines)
  have ok: "acceptable_line lib b64 mk line" and oks: "list_all (acceptable_line lib b64 mk) lines"
    using Cons.prems by simp_all
  show ?case
  proof (cases "read_user_line lib b64 mk line")
    case None
    then show ?thesis using ok by (simp add: acceptable_line_def)
  next
    case (Some k)
    show ?thesis
    proof (cases k)
      case Skipped
      then show ?thesis
        using Some Cons.IH[OF oks, of index us stores] by (simp add: entry_line_def)
    next
      case Malformed
      then show ?thesis using ok Some by (simp add: acceptable_line_def)
    next
      case (User_entry u p)
      show ?thesis
      proof (cases "length u < MAX_USERNAME_LENGTH \<and> length p < MAX_PASSWORD_LENGTH")
        case True
        then show ?thesis
          using Some User_entry
            Cons.IH[OF oks, of "index + 1" "store_user us index u p" "stores @ [index]"]
          by (simp add: entry_line_def)
      next
        case False
        then show ?thesis
          using Some User_entry Cons.IH[OF oks, of "index + 1" us stores]
          by (auto simp add: entry_line_def)
      qed
    qed
  qed
qed

lemma read_user_lines_replicate:
  assumes "read_user_line lib b64 mk line = Some (User_entry u p)"
    and "length u < MAX_USERNAME_LENGTH" and "length p < MAX_PASSWORD_LENGTH"
  shows "\<exists>us'. read_user_lines lib b64 mk (replicate n line) (index, us, stores)
           = Some (False, index + n, us', stores @ [index..<index + n])"
proof (induction n arbitrary: index us stores)
  case 0
  show ?case by simp
next
  case (Suc n)
  obtain us' where "read_user_lines lib b64 mk (replicate n line)
                      (index + 1, store_user us index u p, stores @ [index])
                    = Some (False, index + 1 + n, us', (stores @ [index]) @ [index + 1..<index + 1 + n])"
    using Suc.IH[of "index + 1" "store_user us index u p" "stores @ [index]"] by blast
  moreover have "(stores @ [index]) @ [index + 1..<index + 1 + n] = stores @ [index..<index + Suc n]"
    by (simp add: upt_rec[of index])
  ultimately show ?case
    using assms by simp
qed

text \<open>
  Once an entry has been stored behind the array, the configuration stays undetermined;
  and it is stored there as soon as the entries that pass the length test outnumber the
  array.
\<close>

lemma read_user_lines_behind_the_array:
  assumes "list_all (acceptable_line lib b64 mk) lines"
    and "(us = None \<and> \<not> list_all (\<lambda>i. i < NUMBER_OF_USERS) stores)
         \<or> (0 < length (filter (stored_line lib b64 mk) lines)
            \<and> NUMBER_OF_USERS < index + length (filter (stored_line lib b64 mk) lines))"
  shows "\<exists>index' stores'. read_user_lines lib b64 mk lines (index, us, stores)
           = Some (False, index', None, stores')
         \<and> \<not> list_all (\<lambda>i. i < NUMBER_OF_USERS) stores'"
  using assms
proof (induction lines arbitrary: index us stores)
  case Nil
  then show ?case by simp
next
  case (Cons line lines)
  have ok: "acceptable_line lib b64 mk line" and oks: "list_all (acceptable_line lib b64 mk) lines"
    using Cons.prems(1) by simp_all
  let ?n = "length (filter (stored_line lib b64 mk) lines)"
  show ?case
  proof (cases "read_user_line lib b64 mk line")
    case None
    then show ?thesis using ok by (simp add: acceptable_line_def)
  next
    case (Some k)
    show ?thesis
    proof (cases k)
      case Skipped
      have "\<not> stored_line lib b64 mk line"
        using Some Skipped by (simp add: stored_line_def)
      then have "(us = None \<and> \<not> list_all (\<lambda>i. i < NUMBER_OF_USERS) stores)
                 \<or> (0 < ?n \<and> NUMBER_OF_USERS < index + ?n)"
        using Cons.prems(2) by simp
      then show ?thesis
        using Some Skipped Cons.IH[OF oks, of us stores index] by simp
    next
      case Malformed
      then show ?thesis using ok Some by (simp add: acceptable_line_def)
    next
      case (User_entry u p)
      show ?thesis
      proof (cases "length u < MAX_USERNAME_LENGTH \<and> length p < MAX_PASSWORD_LENGTH")
        case True
        have st: "stored_line lib b64 mk line"
          using Some User_entry True by (simp add: stored_line_def)
        have "(store_user us index u p = None
               \<and> \<not> list_all (\<lambda>i. i < NUMBER_OF_USERS) (stores @ [index]))
              \<or> (0 < ?n \<and> NUMBER_OF_USERS < (index + 1) + ?n)"
        proof (cases "us = None \<and> \<not> list_all (\<lambda>i. i < NUMBER_OF_USERS) stores")
          case True
          then show ?thesis by (simp add: store_user_def)
        next
          case False
          then have c: "NUMBER_OF_USERS < index + Suc ?n"
            using Cons.prems(2) st by auto
          show ?thesis
          proof (cases "index < NUMBER_OF_USERS")
            case True
            then have "0 < ?n" using c by arith
            moreover have "NUMBER_OF_USERS < (index + 1) + ?n" using c by arith
            ultimately show ?thesis by blast
          next
            case False
            then show ?thesis by (simp add: store_user_def split: option.split)
          qed
        qed
        then show ?thesis
          using Some User_entry True
            Cons.IH[OF oks, of "store_user us index u p" "stores @ [index]" "index + 1"]
          by simp
      next
        case False
        have "\<not> stored_line lib b64 mk line"
          using Some User_entry False by (simp add: stored_line_def)
        then have "(us = None \<and> \<not> list_all (\<lambda>i. i < NUMBER_OF_USERS) stores)
                   \<or> (0 < ?n \<and> NUMBER_OF_USERS < (index + 1) + ?n)"
          using Cons.prems(2) by auto
        then show ?thesis
          using Some User_entry False Cons.IH[OF oks, of us stores "index + 1"] by auto
      qed
    qed
  qed
qed

lemma read_users_file_or_key_missing:
  "pgvictoria_read_users_configuration lib b64 master_key None config = Some (1, Some config, [])"
  "pgvictoria_read_users_configuration lib b64 None (Some content) config
   = Some (2, Some config, [])"
  by (simp_all add: pgvictoria_read_users_configuration_def)

lemma example_lines_acceptable:
  "list_all (acceptable_line example_evp example_base64_decode (ascii ''topsecret''))
     (replicate n ''u:xy\<newline>'')"
  by (simp add: list_all_iff acceptable_line_def example_user_line del: replicate.simps)

lemma example_lines_entries:
  "filter (entry_line example_evp example_base64_decode (ascii ''topsecret''))
     (replicate n ''u:xy\<newline>'') = replicate n ''u:xy\<newline>''"
  by (simp add: entry_line_def example_user_line del: replicate.simps)

lemma example_lines_stored:
  "filter (stored_line example_evp example_base64_decode (ascii ''topsecret''))
     (replicate n ''u:xy\<newline>'') = replicate n ''u:xy\<newline>''"
  by (simp add: stored_line_def example_user_line MAX_USERNAME_LENGTH_def MAX_PASSWORD_LENGTH_def
      del: replicate.simps)


lemma transfer_configuration_pidfile:
  assumes "p \<noteq> []" and "p \<noteq> pidfile config"
  shows "transfer_configuration config (config\<lparr>pidfile := p\<rparr>)
         = (False, config, [Restart_required ''pidfile''])"
  unfolding transfer_configuration_def Let_def
  using assms
  by (simp add: restart_string_def restart_int_def copy_servers_result copy_users_same
        copy_server_same server_differs_same)



section \<open>Encryption of buffers and files\<close>

lemma deleted_after:
  "\<not> pgvictoria_exists
       (if pgvictoria_exists files from then pgvictoria_delete_file files from else files) from"
  by (simp add: pgvictoria_exists_def pgvictoria_delete_file_def)

lemma strip_extension_succeeds: "\<exists>t. pgvictoria_strip_extension s = Some t"
  by (cases "CHR ''.'' \<in> set s") (simp_all add: pgvictoria_strip_extension_def)

lemma write_bytes_Some:
  assumes "write_bytes d off bs = Some d'"
  shows "d' = take off d @ bs @ drop (off + length bs) d" and "off + length bs \<le> length d"
    and "length d' = length d"
  using assms by (auto simp add: write_bytes_def split: if_splits)

lemma write_bytes_fits:
  "off + length bs \<le> length d
   \<Longrightarrow> write_bytes d off bs = Some (take off d @ bs @ drop (off + length bs) d)"
  by (simp add: write_bytes_def)

lemma two_writes:
  assumes "write_bytes b0 0 u = Some b1" and "write_bytes b1 (length u) f = Some b2"
  shows "take (length u + length f) b2 = u @ f"
proof -
  have b1: "b1 = u @ drop (length u) b0"
    using write_bytes_Some(1)[OF assms(1)] by simp
  have "b2 = take (length u) b1 @ f @ drop (length u + length f) b1"
    using write_bytes_Some(1)[OF assms(2)] by simp
  then show ?thesis by (simp add: b1)
qed

lemma write_after:
  assumes "write_bytes b2 n bs = Some b3"
  shows "take n b3 = take n b2"
  using write_bytes_Some(1,2)[OF assms] by simp

lemma int_of_size_t_small: "n < 2 ^ 31 \<Longrightarrow> int_of_size_t n = int n"
  unfolding int_of_size_t_def by (rule sint_of_nat_32)

lemma size_t_of_int_store_small: "n < 2 ^ 32 \<Longrightarrow> size_t_of_int_store n = n"
  by (simp add: size_t_of_int_store_def unat_of_nat)

text \<open>
  The function behind its tests of the cipher, the master key, the derivation and the
  initialisation, for an \<open>origin_size\<close> that the conversion to \<open>int\<close> turns into \<open>m\<close>.
\<close>

lemma encrypt_decrypt_buffer_initialised:
  assumes "get_cipher_buffer mode = Some c"
    and "derive_key_iv lib mk mode = Some (key, iv)"
    and "cipher_init lib c key iv (enc \<noteq> 0) = Some ctx"
    and "int_of_size_t (length origin) = int m"
  shows "encrypt_decrypt_buffer lib (Some mk) fresh origin enc mode
         = (case EVP_CipherUpdate lib ctx (take m origin) of
              None \<Rightarrow> Some (Inl 1)
            | Some (ctx', u) \<Rightarrow>
                (case write_bytes
                        (map fresh [0..<(if enc = 1 then length origin + EVP_CIPHER_block_size lib c
                                         else length origin) + 1]) 0 u of
                   None \<Rightarrow> None
                 | Some b1 \<Rightarrow>
                     (case EVP_CipherFinal_ex lib ctx' of
                        None \<Rightarrow> Some (Inl 1)
                      | Some f \<Rightarrow>
                          (case write_bytes b1 (size_t_of_int_store (length u)) f of
                             None \<Rightarrow> None
                           | Some b2 \<Rightarrow>
                               if enc = 0
                               then map_option
                                      (\<lambda>b. Inr (b, size_t_of_int_store (length u)
                                                    + size_t_of_int_store (length f)))
                                      (write_bytes b2 (size_t_of_int_store (length u)
                                                       + size_t_of_int_store (length f)) [0])
                               else Some (Inr (b2, size_t_of_int_store (length u)
                                                   + size_t_of_int_store (length f)))))))"
  unfolding encrypt_decrypt_buffer_def Let_def assms option.case prod.case
  by simp


lemma encrypt_decrypt_buffer_Inr:
  assumes r: "encrypt_decrypt_buffer lib master_key fresh origin enc mode = Some (Inr (buf, n))"
    and small: "length buf < 2 ^ 31"
  shows "\<exists>c mk key iv ctx ctx' u f.
           get_cipher_buffer mode = Some c \<and> master_key = Some mk
           \<and> derive_key_iv lib mk mode = Some (key, iv)
           \<and> cipher_init lib c key iv (enc \<noteq> 0) = Some ctx
           \<and> EVP_CipherUpdate lib ctx origin = Some (ctx', u)
           \<and> EVP_CipherFinal_ex lib ctx' = Some f
           \<and> n = length u + length f \<and> take n buf = u @ f
           \<and> n \<le> length buf \<and> length origin < length buf"
proof -
  obtain c where c: "get_cipher_buffer mode = Some c"
    by (cases "get_cipher_buffer mode") (auto simp add: get_cipher_buffer_def split: if_splits)
  obtain mk where mk: "master_key = Some mk"
    using r by (cases master_key) (simp_all add: encrypt_decrypt_buffer_def c Let_def)
  obtain key iv where d: "derive_key_iv lib mk mode = Some (key, iv)"
    using r by (cases "derive_key_iv lib mk mode")
      (auto simp add: encrypt_decrypt_buffer_def c mk Let_def)
  obtain ctx where i: "cipher_init lib c key iv (enc \<noteq> 0) = Some ctx"
    using r by (cases "cipher_init lib c key iv (enc \<noteq> 0)")
      (auto simp add: encrypt_decrypt_buffer_def c mk d Let_def)
  have nonneg: "\<not> int_of_size_t (length origin) < 0"
    using r by (auto simp add: encrypt_decrypt_buffer_def c mk d i Let_def split: if_splits)
  define m where "m = nat (int_of_size_t (length origin))"
  have inl: "int_of_size_t (length origin) = int m"
    using nonneg by (simp add: m_def)
  define b0 where
    "b0 = map fresh [0..<(if enc = 1 then length origin + EVP_CIPHER_block_size lib c
                          else length origin) + 1]"
  have lb0: "length origin < length b0"
    by (simp add: b0_def)
  note A = r[unfolded mk encrypt_decrypt_buffer_initialised[OF c d i inl] b0_def[symmetric]]
  obtain ctx' u where up: "EVP_CipherUpdate lib ctx (take m origin) = Some (ctx', u)"
    using A by (cases "EVP_CipherUpdate lib ctx (take m origin)") auto
  note A = A[unfolded up option.case prod.case]
  obtain b1 where w1: "write_bytes b0 0 u = Some b1"
    using A by (cases "write_bytes b0 0 u") auto
  note A = A[unfolded w1 option.case]
  obtain f where fi: "EVP_CipherFinal_ex lib ctx' = Some f"
    using A by (cases "EVP_CipherFinal_ex lib ctx'") auto
  note A = A[unfolded fi option.case]
  obtain b2 where w2': "write_bytes b1 (size_t_of_int_store (length u)) f = Some b2"
    using A by (cases "write_bytes b1 (size_t_of_int_store (length u)) f") auto
  note A = A[unfolded w2' option.case]
  have l1: "length b1 = length b0" and lu: "length u \<le> length b0"
    using write_bytes_Some(2,3)[OF w1] by simp_all
  have l2: "length b2 = length b1"
    using write_bytes_Some(3)[OF w2'] .
  have lbuf: "length buf = length b0"
  proof (cases "enc = 0")
    case True
    then obtain b3 where w3: "write_bytes b2 (size_t_of_int_store (length u)
                                + size_t_of_int_store (length f)) [0] = Some b3"
      and "buf = b3"
      using A by (cases "write_bytes b2 (size_t_of_int_store (length u)
                                + size_t_of_int_store (length f)) [0]") auto
    then show ?thesis using write_bytes_Some(3)[OF w3] l1 l2 by simp
  next
    case False
    then show ?thesis using A l1 l2 by simp
  qed
  have b32: "length b0 < 2 ^ 32"
    using small lbuf by simp
  have su: "size_t_of_int_store (length u) = length u"
    using lu b32 by (intro size_t_of_int_store_small) simp
  note w2 = w2'[unfolded su]
  have lf: "length u + length f \<le> length b0"
    using write_bytes_Some(2)[OF w2] l1 by simp
  have sf: "size_t_of_int_store (length f) = length f"
    using lf b32 by (intro size_t_of_int_store_small) simp
  note A = A[unfolded su sf]
  have t2: "take (length u + length f) b2 = u @ f"
    using w1 w2 by (rule two_writes)
  have res: "n = length u + length f \<and> take n buf = u @ f"
  proof (cases "enc = 0")
    case True
    then obtain b3 where w3: "write_bytes b2 (length u + length f) [0] = Some b3"
      and e: "buf = b3" "n = length u + length f"
      using A by (cases "write_bytes b2 (length u + length f) [0]") auto
    show ?thesis using write_after[OF w3] e t2 by simp
  next
    case False
    then show ?thesis using A t2 by simp
  qed
  have lo: "length origin < 2 ^ 31"
    using lb0 lbuf small by simp
  have "m = length origin"
    using inl int_of_size_t_small[OF lo] by simp
  then have up': "EVP_CipherUpdate lib ctx origin = Some (ctx', u)"
    using up by simp
  have n: "n = length u + length f" and t: "take n buf = u @ f"
    using res by blast+
  have "n \<le> length buf" "length origin < length buf"
    using n lf lbuf lb0 by simp_all
  then show ?thesis
    using c mk d i up' fi n t by blast
qed

lemma encrypt_decrypt_buffer_result:
  assumes c: "get_cipher_buffer mode = Some c"
    and d: "derive_key_iv lib mk mode = Some (key, iv)"
    and i: "cipher_init lib c key iv (enc \<noteq> 0) = Some ctx"
    and inl: "int_of_size_t (length origin) = int m"
    and up: "EVP_CipherUpdate lib ctx (take m origin) = Some (ctx', u)"
    and fi: "EVP_CipherFinal_ex lib ctx' = Some f"
    and le: "length u + length f
             \<le> (if enc = 1 then length origin + EVP_CIPHER_block_size lib c else length origin)"
    and lu: "length u < 2 ^ 32" and lf: "length f < 2 ^ 32"
  shows "\<exists>buf. encrypt_decrypt_buffer lib (Some mk) fresh origin enc mode
                 = Some (Inr (buf, length u + length f))
               \<and> take (length u + length f) buf = u @ f
               \<and> (enc = 0 \<longrightarrow> buf ! (length u + length f) = 0)
               \<and> length buf = (if enc = 1 then length origin + EVP_CIPHER_block_size lib c
                                else length origin) + 1"
proof -
  define sz where
    "sz = (if enc = 1 then length origin + EVP_CIPHER_block_size lib c else length origin)"
  define b0 where "b0 = map fresh [0..<sz + 1]"
  define b1 where "b1 = take 0 b0 @ u @ drop (0 + length u) b0"
  define b2 where "b2 = take (length u) b1 @ f @ drop (length u + length f) b1"
  define b3 where "b3 = take (length u + length f) b2 @ [0] @ drop (length u + length f + length [0::byte]) b2"
  have le': "length u + length f \<le> sz"
    using le by (simp only: sz_def)
  have l0: "length b0 = sz + 1"
    by (simp add: b0_def)
  have w1: "write_bytes b0 0 u = Some b1"
    unfolding b1_def using le' l0 by (intro write_bytes_fits) simp
  have l1: "length b1 = sz + 1"
    using write_bytes_Some(3)[OF w1] l0 by simp
  have w2: "write_bytes b1 (length u) f = Some b2"
    unfolding b2_def using le' l1 by (intro write_bytes_fits) simp
  have l2: "length b2 = sz + 1"
    using write_bytes_Some(3)[OF w2] l1 by simp
  have w3: "write_bytes b2 (length u + length f) [0] = Some b3"
    unfolding b3_def using le' l2 by (intro write_bytes_fits) simp
  have l3: "length b3 = sz + 1"
    using write_bytes_Some(3)[OF w3] l2 by simp
  have t2: "take (length u + length f) b2 = u @ f"
    using w1 w2 by (rule two_writes)
  have t3: "take (length u + length f) b3 = u @ f"
    using write_after[OF w3] t2 by simp
  have n3: "b3 ! (length u + length f) = 0"
    unfolding b3_def using le' l2 by (simp add: nth_append)
  have e: "encrypt_decrypt_buffer lib (Some mk) fresh origin enc mode
        = (if enc = 0 then Some (Inr (b3, length u + length f))
           else Some (Inr (b2, length u + length f)))"
    unfolding encrypt_decrypt_buffer_initialised[OF c d i inl] sz_def[symmetric] b0_def[symmetric]
    by (simp only: up fi option.case prod.case size_t_of_int_store_small[OF lu]
          size_t_of_int_store_small[OF lf] w1 w2 w3 option.map)
  show ?thesis
  proof (cases "enc = 0")
    case True
    then show ?thesis using e t3 n3 l3 by (simp add: sz_def)
  next
    case False
    then show ?thesis using e t2 l2 by (simp add: sz_def)
  qed
qed

lemma example_evp_round_trip: "evp_round_trip example_evp"
  unfolding evp_round_trip_def
  by (auto simp add: example_evp_def map_butlast[symmetric] comp_def split: if_splits)


section \<open>The executor on a reply delivered in pieces\<close>

lemma reply_stream_append:
  "reply_stream (a @ b) = reply_stream a @ reply_stream b"
  by (simp add: reply_stream_def stream_bytes_def)

lemma read_replies_zeros:
  "read_replies d (replicate k MESSAGE_STATUS_ZERO @ rs) = read_replies d rs"
  by (induction k) simp_all

lemma read_replies_chunks:
  assumes "list_all well_formed_message (pre @ delivered chunks @ ms)"
    and "length (reply_stream (pre @ delivered chunks @ ms)) < 2 ^ 64"
    and "chr CHR ''Z'' \<notin> message_tag ` set (pre @ delivered chunks)"
    and "chr CHR ''Z'' \<in> message_tag ` set ms"
  shows "read_replies (reply_stream pre) (reads_of (chunks @ [(k, ms)]) @ rest)
         = Some (Some (Inr (reply_stream (pre @ delivered chunks @ ms))))"
  using assms
proof (induction chunks arbitrary: pre)
  case Nil
  have wf: "list_all well_formed_message (pre @ ms)"
    and len: "length (reply_stream (pre @ ms)) < 2 ^ 64"
    using Nil.prems(1,2) by (simp_all add: delivered_def)
  have z: "chr CHR ''Z'' \<in> message_tag ` set (pre @ ms)"
    using Nil.prems(4) by auto
  show ?case
    using z has_message_reply_stream[OF wf len, of "chr CHR ''Z''"]
    by (simp add: reads_of_def chunk_reads_def delivered_def read_replies_zeros
          reply_stream_append)
next
  case (Cons chunk chunks)
  obtain j cs where chunk: "chunk = (j, cs)" by (cases chunk)
  have d: "delivered (chunk # chunks) = cs @ delivered chunks"
    by (simp add: delivered_def chunk)
  have wf: "list_all well_formed_message (pre @ cs)"
    using Cons.prems(1) by (simp add: d)
  have "length (reply_stream (pre @ cs))
        \<le> length (reply_stream (pre @ delivered (chunk # chunks) @ ms))"
    by (simp add: d reply_stream_append)
  then have len: "length (reply_stream (pre @ cs)) < 2 ^ 64"
    using Cons.prems(2) by simp
  have nz: "chr CHR ''Z'' \<notin> message_tag ` set (pre @ cs)"
    using Cons.prems(3) by (auto simp add: d)
  have ih: "read_replies (reply_stream (pre @ cs)) (reads_of (chunks @ [(k, ms)]) @ rest)
            = Some (Some (Inr (reply_stream ((pre @ cs) @ delivered chunks @ ms))))"
    using Cons.prems by (intro Cons.IH) (simp_all add: d)
  have "read_replies (reply_stream pre) (reads_of ((chunk # chunks) @ [(k, ms)]) @ rest)
        = read_replies (reply_stream pre)
            (MESSAGE_STATUS_OK (reply_stream cs) # reads_of (chunks @ [(k, ms)]) @ rest)"
    by (simp add: reads_of_def chunk_reads_def chunk read_replies_zeros)
  also have "\<dots> = read_replies (reply_stream (pre @ cs)) (reads_of (chunks @ [(k, ms)]) @ rest)"
    using nz has_message_reply_stream[OF wf len, of "chr CHR ''Z''"]
    by (simp add: reply_stream_append)
  finally show ?case
    using ih by (simp add: d)
qed

lemma query_execute_chunks:
  assumes "list_all well_formed_message (delivered (chunks @ [(k, ms)]))"
    and "length (reply_stream (delivered (chunks @ [(k, ms)]))) < 2 ^ 64"
    and "chr CHR ''Z'' \<notin> message_tag ` set (delivered chunks)"
    and "chr CHR ''Z'' \<in> message_tag ` set ms"
  shows "pgvictoria_query_execute True (reads_of (chunks @ [(k, ms)]) @ rest)
         = classify_replies (reply_stream (delivered (chunks @ [(k, ms)])))
             (length (reply_stream (delivered (chunks @ [(k, ms)]))))"
proof -
  have d: "delivered (chunks @ [(k, ms)]) = delivered chunks @ ms"
    by (simp add: delivered_def)
  have "read_replies (reply_stream []) (reads_of (chunks @ [(k, ms)]) @ rest)
        = Some (Some (Inr (reply_stream ([] @ delivered chunks @ ms))))"
    using assms by (intro read_replies_chunks) (simp_all add: d)
  then show ?thesis
    by (simp add: pgvictoria_query_execute_def d reply_stream_def stream_bytes_def)
qed

text \<open>
  A ninth column, or a name of \<open>MISC_LENGTH\<close> bytes or more, has no room in \<open>names\<close>.
\<close>

lemma copy_names_behind_the_table:
  assumes "length cols < 2 ^ 15" and "list_all well_formed_column cols"
    and "i + k \<le> length cols" and "MAX_NUMBER_OF_COLUMNS < i + k" and "i \<le> MAX_NUMBER_OF_COLUMNS"
  shows "copy_names
           \<lparr>kind = chr CHR ''T'', mlength = n, data = frame_bytes (message_frame (RowDescription cols))\<rparr>
           i k ns
         = None"
  using assms(3,4,5)
proof (induction k arbitrary: i ns)
  case 0
  then show ?case by simp
next
  case (Suc k)
  have lt: "i < length cols" using Suc.prems(1) by simp
  note g = get_column_name_frame[OF assms(1,2) lt, of n]
  show ?case
  proof (cases "i < MAX_NUMBER_OF_COLUMNS \<and> length (fst (cols ! i)) < MISC_LENGTH")
    case True
    have "copy_names
            \<lparr>kind = chr CHR ''T'', mlength = n,
             data = frame_bytes (message_frame (RowDescription cols))\<rparr>
            (Suc i) k (ns[i := fst (cols ! i)]) = None"
      using Suc.prems True by (intro Suc.IH) simp_all
    then show ?thesis
      using True g by (simp del: message_frame.simps)
  next
    case False
    then show ?thesis
      using g by (auto simp del: message_frame.simps)
  qed
qed

lemma row_description_response_behind_names:
  assumes wf: "list_all well_formed_message msgs"
    and len: "length (reply_stream msgs) < 2 ^ 64"
    and first: "first_row_description msgs = Some cols"
    and wide: "MAX_NUMBER_OF_COLUMNS < length cols"
  shows "row_description_response (reply_stream msgs) (length (reply_stream msgs)) = Some None"
proof -
  let ?rmsg = "\<lparr>kind = chr CHR ''T'',
                 mlength = length (frame_bytes (message_frame (RowDescription cols))),
                 data = frame_bytes (message_frame (RowDescription cols))\<rparr>"
  have wfc: "well_formed_message (RowDescription cols)"
    using first_row_description_well_formed[OF wf first] .
  then have lc: "length cols < 2 ^ 15" and wc: "list_all well_formed_column cols"
    by simp_all
  have ex: "pgvictoria_extract_message_from_data (chr CHR ''T'') (reply_stream msgs)
              (length (reply_stream msgs)) = Some (Some (Inr ?rmsg))"
    using extract_from_reply_stream[OF wf len, of "chr CHR ''T''"] find_row_description[OF wf] first
    by (simp del: message_frame.simps)
  have n: "get_number_of_columns ?rmsg = Some (int (length cols))"
    using lc by (rule get_number_of_columns_frame)
  have cn: "copy_names ?rmsg 0 (length cols) (names empty_response) = None"
    using wide by (intro copy_names_behind_the_table[OF lc wc]) simp_all
  show ?thesis
    unfolding row_description_response_def
    by (simp only: ex n cn option.case sum.case nat_int)
qed

text \<open>
  Within the capacity of \<open>names\<close> the executor classifies the accumulated stream: for a
  reply of well-formed frames without an \<open>E\<close> frame, delivered in any number of pieces
  of whole frames of which the last is the first to hold a \<open>Z\<close> frame, it returns 0
  with a response.  With a \<open>T\<close> frame of at most \<open>MAX_NUMBER_OF_COLUMNS\<close> columns, names
  shorter than \<open>MISC_LENGTH\<close> and rows as wide as the \<open>T\<close> frame says, the response has
  the column count and the names of the first \<open>T\<close> frame, one tuple for each \<open>D\<close> frame
  in wire order, and \<open>is_command_complete\<close> false.  With no \<open>T\<close> frame but a \<open>C\<close>
  frame, it has one column and one tuple, which holds the command tag, and
  \<open>is_command_complete\<close> true.
\<close>

lemma query_execute_within_capacity:
  assumes wf: "list_all well_formed_message (delivered (chunks @ [(k, ms)]))"
    and len: "length (reply_stream (delivered (chunks @ [(k, ms)]))) < 2 ^ 64"
    and nz: "chr CHR ''Z'' \<notin> message_tag ` set (delivered chunks)"
    and z: "chr CHR ''Z'' \<in> message_tag ` set ms"
    and noE: "chr CHR ''E'' \<notin> message_tag ` set (delivered (chunks @ [(k, ms)]))"
  shows "(\<forall>cols. first_row_description (delivered (chunks @ [(k, ms)])) = Some cols
             \<and> length cols \<le> MAX_NUMBER_OF_COLUMNS
             \<and> list_all (\<lambda>c. length (fst c) < MISC_LENGTH) cols
             \<and> list_all (\<lambda>cells. length cells = length cols)
                  (data_rows (delivered (chunks @ [(k, ms)])))
           \<longrightarrow> pgvictoria_query_execute True (reads_of (chunks @ [(k, ms)]) @ rest)
               = Some (Some (Inr \<lparr>number_of_columns = int (length cols),
                      names = map fst cols @ replicate (MAX_NUMBER_OF_COLUMNS - length cols) [],
                      tuples = map (map built_cell) (data_rows (delivered (chunks @ [(k, ms)]))),
                      is_command_complete = False\<rparr>)))
       \<and> (\<forall>tag. first_row_description (delivered (chunks @ [(k, ms)])) = None
             \<and> first_command_complete (delivered (chunks @ [(k, ms)])) = Some tag
           \<longrightarrow> pgvictoria_query_execute True (reads_of (chunks @ [(k, ms)]) @ rest)
               = Some (Some (Inr \<lparr>number_of_columns = 1,
                      names = replicate MAX_NUMBER_OF_COLUMNS [],
                      tuples = [[built_cell (Some tag)]],
                      is_command_complete = True\<rparr>)))"
proof (intro conjI allI impI)
  fix cols
  assume h: "first_row_description (delivered (chunks @ [(k, ms)])) = Some cols
             \<and> length cols \<le> MAX_NUMBER_OF_COLUMNS
             \<and> list_all (\<lambda>c. length (fst c) < MISC_LENGTH) cols
             \<and> list_all (\<lambda>cells. length cells = length cols)
                  (data_rows (delivered (chunks @ [(k, ms)])))"
  show "pgvictoria_query_execute True (reads_of (chunks @ [(k, ms)]) @ rest)
        = Some (Some (Inr \<lparr>number_of_columns = int (length cols),
                      names = map fst cols @ replicate (MAX_NUMBER_OF_COLUMNS - length cols) [],
                      tuples = map (map built_cell) (data_rows (delivered (chunks @ [(k, ms)]))),
                      is_command_complete = False\<rparr>))"
    using h query_execute_chunks[OF wf len nz z, of rest]
      classify_row_description[OF wf len noE, of cols]
      row_description_response_stream[OF wf len, of cols]
    by simp
next
  fix tag
  assume h: "first_row_description (delivered (chunks @ [(k, ms)])) = None
             \<and> first_command_complete (delivered (chunks @ [(k, ms)])) = Some tag"
  show "pgvictoria_query_execute True (reads_of (chunks @ [(k, ms)]) @ rest)
        = Some (Some (Inr \<lparr>number_of_columns = 1,
                      names = replicate MAX_NUMBER_OF_COLUMNS [],
                      tuples = [[built_cell (Some tag)]],
                      is_command_complete = True\<rparr>))"
    using h query_execute_chunks[OF wf len nz z, of rest]
      classify_command_complete[OF wf len noE, of tag]
      command_complete_response_stream[OF wf len, of tag]
    by (simp del: built_cell.simps)
qed

text \<open>
  The exchange \<open>T(1 col "?column?") D(0001 00000001 '1') C("SELECT 1") Z\<close>, and the
  reply to an \<open>INSERT\<close>.
\<close>

lemma query_execute_select_1:
  "list_all well_formed_message
     [RowDescription [(ascii ''?column?'', [0,0,0,0, 0,0, 0,0,0,23, 0,4, 255,255,255,255, 0,0])],
      DataRow [Some (ascii ''1'')], CommandComplete (ascii ''SELECT 1''),
      ReadyForQuery (chr CHR ''I'')]
   \<and> frame_bytes (message_frame (DataRow [Some (ascii ''1'')]))
       = [68, 0,0,0,11, 0,1, 0,0,0,1, 49]
   \<and> pgvictoria_query_execute True
       [MESSAGE_STATUS_OK (reply_stream
         [RowDescription [(ascii ''?column?'', [0,0,0,0, 0,0, 0,0,0,23, 0,4, 255,255,255,255, 0,0])],
          DataRow [Some (ascii ''1'')], CommandComplete (ascii ''SELECT 1''),
          ReadyForQuery (chr CHR ''I'')])]
     = Some (Some (Inr \<lparr>number_of_columns = 1,
                        names = ascii ''?column?'' # replicate 7 [],
                        tuples = [[Some (ascii ''1'' @ [0])]],
                        is_command_complete = False\<rparr>))
   \<and> list_all well_formed_message [CommandComplete (ascii ''INSERT 0 1''), ReadyForQuery (chr CHR ''I'')]
   \<and> pgvictoria_query_execute True
       [MESSAGE_STATUS_OK (reply_stream
         [CommandComplete (ascii ''INSERT 0 1''), ReadyForQuery (chr CHR ''I'')])]
     = Some (Some (Inr \<lparr>number_of_columns = 1,
                        names = replicate 8 [],
                        tuples = [[Some (ascii ''INSERT 0 1'' @ [0])]],
                        is_command_complete = True\<rparr>))"
proof -
  let ?cols = "[(ascii ''?column?'', [0,0,0,0, 0,0, 0,0,0,23, 0,4, 255,255,255,255, 0,0::byte])]"
  let ?msgs = "[RowDescription ?cols, DataRow [Some (ascii ''1'')], CommandComplete (ascii ''SELECT 1''),
                ReadyForQuery (chr CHR ''I'')]"
  let ?msgs2 = "[CommandComplete (ascii ''INSERT 0 1''), ReadyForQuery (chr CHR ''I'')]"
  have nz: "0 \<notin> set (ascii ''?column?'')" by (simp add: ascii_def chr_def)
  have dm: "delivered ([] @ [(0, ?msgs)]) = ?msgs" by (simp add: delivered_def)
  have dm2: "delivered ([] @ [(0, ?msgs2)]) = ?msgs2" by (simp add: delivered_def)
  have nz0: "chr CHR ''Z'' \<notin> message_tag ` set (delivered [])" by (simp add: delivered_def)
  have wf: "list_all well_formed_message ?msgs"
    using nz by (simp add: well_formed_frame_def be16_def length_be32 length_ascii)
  have len: "length (reply_stream ?msgs) < 2 ^ 64"
    by (simp add: reply_stream_def stream_bytes_def frame_bytes_def be16_def length_be32 length_ascii)
  have z: "chr CHR ''Z'' \<in> message_tag ` set ?msgs" by (simp add: message_tag_def)
  have noE: "chr CHR ''E'' \<notin> message_tag ` set ?msgs" by (simp add: message_tag_def chr_def)
  have h: "first_row_description ?msgs = Some ?cols
           \<and> length ?cols \<le> MAX_NUMBER_OF_COLUMNS
           \<and> list_all (\<lambda>c. length (fst c) < MISC_LENGTH) ?cols
           \<and> list_all (\<lambda>cells. length cells = length ?cols) (data_rows ?msgs)"
    by (simp add: MAX_NUMBER_OF_COLUMNS_def MISC_LENGTH_def length_ascii)
  have r1: "pgvictoria_query_execute True [MESSAGE_STATUS_OK (reply_stream ?msgs)]
            = Some (Some (Inr \<lparr>number_of_columns = 1,
                        names = ascii ''?column?'' # replicate 7 [],
                        tuples = [[Some (ascii ''1'' @ [0])]],
                        is_command_complete = False\<rparr>))"
  proof -
    have ne: "ascii ''1'' \<noteq> []" by (simp add: ascii_def)
    have "pgvictoria_query_execute True (reads_of ([] @ [(0, ?msgs)]) @ [])
          = Some (Some (Inr \<lparr>number_of_columns = int (length ?cols),
                      names = map fst ?cols @ replicate (MAX_NUMBER_OF_COLUMNS - length ?cols) [],
                      tuples = map (map built_cell) (data_rows ?msgs),
                      is_command_complete = False\<rparr>))"
      using query_execute_within_capacity[of "[]" 0 ?msgs "[]", unfolded dm, OF wf len nz0 z noE] h
      by blast
    then show ?thesis
      using ne by (simp add: MAX_NUMBER_OF_COLUMNS_def reads_of_def chunk_reads_def)
  qed
  have d: "frame_bytes (message_frame (DataRow [Some (ascii ''1'')])) = [68, 0,0,0,11, 0,1, 0,0,0,1, 49]"
    by (simp add: frame_bytes_def be16_def be32_def ascii_def chr_def)
  have wf2: "list_all well_formed_message ?msgs2"
    by (simp add: well_formed_frame_def length_ascii)
  have len2: "length (reply_stream ?msgs2) < 2 ^ 64"
    by (simp add: reply_stream_def stream_bytes_def frame_bytes_def length_be32 length_ascii)
  have z2: "chr CHR ''Z'' \<in> message_tag ` set ?msgs2" by (simp add: message_tag_def)
  have noE2: "chr CHR ''E'' \<notin> message_tag ` set ?msgs2" by (simp add: message_tag_def chr_def)
  have h2: "first_row_description ?msgs2 = None
            \<and> first_command_complete ?msgs2 = Some (ascii ''INSERT 0 1'')"
    by simp
  have r2: "pgvictoria_query_execute True [MESSAGE_STATUS_OK (reply_stream ?msgs2)]
            = Some (Some (Inr \<lparr>number_of_columns = 1,
                        names = replicate 8 [],
                        tuples = [[Some (ascii ''INSERT 0 1'' @ [0])]],
                        is_command_complete = True\<rparr>))"
  proof -
    have ne: "ascii ''INSERT 0 1'' \<noteq> []" by (simp add: ascii_def)
    have "pgvictoria_query_execute True (reads_of ([] @ [(0, ?msgs2)]) @ [])
          = Some (Some (Inr \<lparr>number_of_columns = 1,
                      names = replicate MAX_NUMBER_OF_COLUMNS [],
                      tuples = [[built_cell (Some (ascii ''INSERT 0 1''))]],
                      is_command_complete = True\<rparr>))"
      using query_execute_within_capacity[of "[]" 0 ?msgs2 "[]", unfolded dm2,
          OF wf2 len2 nz0 z2 noE2] h2
      by blast
    then show ?thesis
      using ne by (simp add: MAX_NUMBER_OF_COLUMNS_def reads_of_def chunk_reads_def)
  qed
  show ?thesis
    by (intro conjI wf d r1 wf2 r2)
qed


section \<open>The claims\<close>

text \<open>
  Claim C3 (as amended).  For every username and database for which the frame size
  \<open>51 + strlen(username) + strlen(database)\<close> is not a multiple of the alignment,
  \<open>pgvictoria_create_startup_message\<close> with \<open>replication = false\<close> returns an untagged
  frame (kind 0) that starts with an i32 equal to the number of bytes of the frame, then
  the i32 protocol 196608, then \<open>user\0<username>\0database\0<database>\0\<close>, then
  \<open>application_name\0\<close> and the ten bytes \<open>pgvictoria\<close>.
\<close>

theorem startup_message_layout:
  assumes "(51 + length username + length database) mod 512 \<noteq> 0"
  shows "\<exists>m rest. pgvictoria_create_startup_message username database False = Some m
           \<and> kind m = 0
           \<and> wire m = be32 (of_nat (length (wire m))) @ be32 196608
                 @ ascii ''user'' @ [0] @ username @ [0]
                 @ ascii ''database'' @ [0] @ database @ [0]
                 @ ascii ''application_name'' @ [0] @ ascii ''pgvictoria'' @ rest"
proof -
  let ?sz = "51 + length username + length database"
  let ?p = "be32 (of_nat ?sz) @ be32 196608
                 @ ascii ''user'' @ [0] @ username @ [0]
                 @ ascii ''database'' @ [0] @ database @ [0]
                 @ ascii ''application_name'' @ [0] @ ascii ''pgvictoria''"
  let ?m = "\<lparr>kind = 0, mlength = ?sz,
             data = ?p @ [0] @ replicate (pgvictoria_get_aligned_size ?sz - Suc ?sz) 0\<rparr>"
  have len: "length ?p = ?sz" by (simp add: length_be32 length_ascii)
  have w: "wire ?m = ?p" using len by (rule wire_prefix)
  have "pgvictoria_create_startup_message username database False = Some ?m"
    using startup_data[OF assms] by simp
  moreover have "kind ?m = 0" by simp
  moreover have "wire ?m = be32 (of_nat (length (wire ?m))) @ be32 196608
                 @ ascii ''user'' @ [0] @ username @ [0]
                 @ ascii ''database'' @ [0] @ database @ [0]
                 @ ascii ''application_name'' @ [0] @ ascii ''pgvictoria'' @ []"
    unfolding w len by simp
  ultimately show ?thesis by blast
qed

theorem startup_message_layout_witness:
  "(51 + length (ascii ''alice'') + length (ascii ''db'')) mod 512 \<noteq> 0
   \<and> (\<exists>m rest. pgvictoria_create_startup_message (ascii ''alice'') (ascii ''db'') False = Some m
           \<and> kind m = 0
           \<and> wire m = be32 (of_nat (length (wire m))) @ be32 196608
                 @ ascii ''user'' @ [0] @ ascii ''alice'' @ [0]
                 @ ascii ''database'' @ [0] @ ascii ''db'' @ [0]
                 @ ascii ''application_name'' @ [0] @ ascii ''pgvictoria'' @ rest)"
proof -
  have h: "(51 + length (ascii ''alice'') + length (ascii ''db'')) mod 512 \<noteq> 0"
    by (simp add: length_ascii)
  show ?thesis
    using h startup_message_layout[OF h] by blast
qed

theorem startup_message_alice_db_counterexample:
  "map_option mlength (pgvictoria_create_startup_message (ascii ''alice'') (ascii ''db'') False)
     = Some 58
   \<and> map_option wire (pgvictoria_create_startup_message (ascii ''alice'') (ascii ''db'') False)
     = Some (be32 58 @ be32 196608
             @ ascii ''user'' @ [0] @ ascii ''alice'' @ [0]
             @ ascii ''database'' @ [0] @ ascii ''db'' @ [0]
             @ ascii ''application_name'' @ [0] @ ascii ''pgvictoria'')
   \<and> map_option wire (pgvictoria_create_startup_message (ascii ''alice'') (ascii ''db'') False)
     \<noteq> Some (be32 47 @ be32 196608
             @ ascii ''user'' @ [0] @ ascii ''alice'' @ [0]
             @ ascii ''database'' @ [0] @ ascii ''db'' @ [0]
             @ ascii ''application_name'' @ [0] @ ascii ''pgvictoria'' @ [0] @ [0])"
proof -
  have h: "(51 + length (ascii ''alice'') + length (ascii ''db'')) mod 512 \<noteq> 0"
    by (simp add: length_ascii)
  have sz: "51 + length (ascii ''alice'') + length (ascii ''db'') = 58"
    by (simp add: length_ascii)
  let ?p = "be32 58 @ be32 196608
             @ ascii ''user'' @ [0] @ ascii ''alice'' @ [0]
             @ ascii ''database'' @ [0] @ ascii ''db'' @ [0]
             @ ascii ''application_name'' @ [0] @ ascii ''pgvictoria''"
  have len: "length ?p = 58" by (simp add: length_be32 length_ascii)
  have r: "pgvictoria_create_startup_message (ascii ''alice'') (ascii ''db'') False
           = Some \<lparr>kind = 0, mlength = 58,
                   data = ?p @ [0] @ replicate (pgvictoria_get_aligned_size 58 - Suc 58) 0\<rparr>"
    using startup_data[OF h] unfolding sz by simp
  have w: "map_option wire (pgvictoria_create_startup_message (ascii ''alice'') (ascii ''db'') False)
           = Some ?p"
    unfolding r using wire_prefix[OF len] by simp
  have ne: "length ?p \<noteq> length (be32 47 @ be32 196608
             @ ascii ''user'' @ [0] @ ascii ''alice'' @ [0]
             @ ascii ''database'' @ [0] @ ascii ''db'' @ [0]
             @ ascii ''application_name'' @ [0] @ ascii ''pgvictoria'' @ [0] @ [0])"
    by (simp add: length_be32 length_ascii)
  have a: "map_option mlength (pgvictoria_create_startup_message (ascii ''alice'') (ascii ''db'') False)
     = Some 58"
    unfolding r by simp
  have c: "Some ?p \<noteq> Some (be32 47 @ be32 196608
             @ ascii ''user'' @ [0] @ ascii ''alice'' @ [0]
             @ ascii ''database'' @ [0] @ ascii ''db'' @ [0]
             @ ascii ''application_name'' @ [0] @ ascii ''pgvictoria'' @ [0] @ [0])"
  proof
    assume "Some ?p = Some (be32 47 @ be32 196608
             @ ascii ''user'' @ [0] @ ascii ''alice'' @ [0]
             @ ascii ''database'' @ [0] @ ascii ''db'' @ [0]
             @ ascii ''application_name'' @ [0] @ ascii ''pgvictoria'' @ [0] @ [0])"
    then have "length ?p = length (be32 47 @ be32 196608
             @ ascii ''user'' @ [0] @ ascii ''alice'' @ [0]
             @ ascii ''database'' @ [0] @ ascii ''db'' @ [0]
             @ ascii ''application_name'' @ [0] @ ascii ''pgvictoria'' @ [0] @ [0])"
      by (simp only: option.inject)
    with ne show False by (rule notE)
  qed
  show ?thesis
    unfolding w by (intro conjI a refl c)
qed



text \<open>
  Claim C4 (as amended).  For every client nonce for which \<open>31 + strlen(nonce)\<close> is not a
  multiple of the alignment, \<open>pgvictoria_create_auth_scram256_response\<close> returns a \<open>p\<close>
  frame whose body after the 5-byte header is \<open>SCRAM-SHA-256\0\<close>, three zero bytes, the
  nine bytes \<open>" n,,n=,r="\<close> and the nonce, with no NUL after the nonce.  No length is
  computed: the four bytes after the mechanism name are \<open>00 00 00 20\<close>, the last of them
  being the leading space of \<open>" n,,n=,r="\<close>, so they read as 32 for every nonce.
\<close>

theorem scram_response_layout:
  assumes "(31 + length nounce) mod 512 \<noteq> 0"
  shows "\<exists>m. pgvictoria_create_auth_scram256_response nounce = Some m
           \<and> kind m = chr CHR ''p''
           \<and> wire m = [chr CHR ''p''] @ be32 (of_nat (30 + length nounce))
                 @ ascii ''SCRAM-SHA-256'' @ [0] @ [0, 0, 0]
                 @ ascii '' n,,n=,r='' @ nounce
           \<and> pgvictoria_read_int32 (wire m) 19 = Some 32"
proof -
  let ?sz = "31 + length nounce"
  let ?h = "[chr CHR ''p''] @ be32 (of_nat (30 + length nounce)) @ ascii ''SCRAM-SHA-256'' @ [0]"
  let ?p = "[chr CHR ''p''] @ be32 (of_nat (30 + length nounce))
                 @ ascii ''SCRAM-SHA-256'' @ [0] @ [0, 0, 0]
                 @ ascii '' n,,n=,r='' @ nounce"
  let ?m = "\<lparr>kind = chr CHR ''p'', mlength = ?sz,
             data = ?p @ [0] @ replicate (pgvictoria_get_aligned_size ?sz - Suc ?sz) 0\<rparr>"
  have len: "length ?p = ?sz" by (simp add: length_be32 length_ascii)
  have w: "wire ?m = ?p" using len by (rule wire_prefix)
  have lh: "length ?h = 19" by (simp add: length_be32 length_ascii)
  have "?p = ?h @ [0, 0, 0] @ ascii '' n,,n=,r='' @ nounce" by simp
  then have f: "pgvictoria_read_int32 ?p 19 = Some 32"
    using scram_length_field[OF lh, of nounce] by simp
  have "pgvictoria_create_auth_scram256_response nounce = Some ?m"
    using scram_data[OF assms] by simp
  moreover have "kind ?m = chr CHR ''p''" by simp
  moreover note w
  moreover have "pgvictoria_read_int32 (wire ?m) 19 = Some 32" unfolding w by (rule f)
  ultimately show ?thesis by blast
qed

theorem scram_response_layout_witness:
  "(31 + length (ascii ''rOprNGfwEbeRWgbNEkqO'')) mod 512 \<noteq> 0
   \<and> (\<exists>m. pgvictoria_create_auth_scram256_response (ascii ''rOprNGfwEbeRWgbNEkqO'') = Some m
           \<and> kind m = chr CHR ''p''
           \<and> wire m = [chr CHR ''p''] @ be32 50
                 @ ascii ''SCRAM-SHA-256'' @ [0] @ [0, 0, 0]
                 @ ascii '' n,,n=,r='' @ ascii ''rOprNGfwEbeRWgbNEkqO''
           \<and> pgvictoria_read_int32 (wire m) 19 = Some 32)"
proof -
  have h: "(31 + length (ascii ''rOprNGfwEbeRWgbNEkqO'')) mod 512 \<noteq> 0"
    by (simp add: length_ascii)
  have l: "30 + length (ascii ''rOprNGfwEbeRWgbNEkqO'') = 50" by (simp add: length_ascii)
  show ?thesis
    using h scram_response_layout[OF h] unfolding l by simp
qed

theorem scram_length_field_counterexample:
  "map_option (\<lambda>m. (mlength m, pgvictoria_read_int32 (wire m) 19))
       (pgvictoria_create_auth_scram256_response (ascii ''rOprNGfwEbeRWgbNEkqO''))
     = Some (51, Some 32)
   \<and> map_option wire (pgvictoria_create_auth_scram256_response (ascii ''rOprNGfwEbeRWgbNEkqO''))
     \<noteq> Some ([chr CHR ''p''] @ be32 51 @ ascii ''SCRAM-SHA-256'' @ [0] @ be32 29
              @ ascii '' n,,n=,r='' @ ascii ''rOprNGfwEbeRWgbNEkqO'')"
proof -
  let ?n = "ascii ''rOprNGfwEbeRWgbNEkqO''"
  have h: "(31 + length ?n) mod 512 \<noteq> 0" by (simp add: length_ascii)
  have l: "30 + length ?n = 50" "31 + length ?n = 51" by (simp_all add: length_ascii)
  let ?h = "[chr CHR ''p''] @ be32 50 @ ascii ''SCRAM-SHA-256'' @ [0]"
  let ?p = "[chr CHR ''p''] @ be32 50 @ ascii ''SCRAM-SHA-256'' @ [0] @ [0, 0, 0]
                 @ ascii '' n,,n=,r='' @ ?n"
  have len: "length ?p = 51" by (simp add: length_be32 length_ascii)
  have r: "pgvictoria_create_auth_scram256_response ?n
           = Some \<lparr>kind = chr CHR ''p'', mlength = 51,
                   data = ?p @ [0] @ replicate (pgvictoria_get_aligned_size 51 - Suc 51) 0\<rparr>"
    using scram_data[OF h] unfolding l by simp
  have lh: "length ?h = 19" by (simp add: length_be32 length_ascii)
  have "?p = ?h @ [0, 0, 0] @ ascii '' n,,n=,r='' @ ?n" by simp
  then have f: "pgvictoria_read_int32 ?p 19 = Some 32"
    using scram_length_field[OF lh, of ?n] by simp
  have a: "map_option (\<lambda>m. (mlength m, pgvictoria_read_int32 (wire m) 19))
       (pgvictoria_create_auth_scram256_response ?n) = Some (51, Some 32)"
    unfolding r using wire_prefix[OF len] f by simp
  have w: "map_option wire (pgvictoria_create_auth_scram256_response ?n) = Some ?p"
    unfolding r using wire_prefix[OF len] by simp
  have ne: "length ?p \<noteq> length ([chr CHR ''p''] @ be32 51 @ ascii ''SCRAM-SHA-256'' @ [0] @ be32 29
              @ ascii '' n,,n=,r='' @ ?n)"
    by (simp add: length_be32 length_ascii)
  have c: "Some ?p \<noteq> Some ([chr CHR ''p''] @ be32 51 @ ascii ''SCRAM-SHA-256'' @ [0] @ be32 29
              @ ascii '' n,,n=,r='' @ ?n)"
  proof
    assume "Some ?p = Some ([chr CHR ''p''] @ be32 51 @ ascii ''SCRAM-SHA-256'' @ [0] @ be32 29
              @ ascii '' n,,n=,r='' @ ?n)"
    then have "length ?p = length ([chr CHR ''p''] @ be32 51 @ ascii ''SCRAM-SHA-256'' @ [0] @ be32 29
              @ ascii '' n,,n=,r='' @ ?n)"
      by (simp only: option.inject)
    with ne show False by (rule notE)
  qed
  show ?thesis
    unfolding w by (intro conjI a c)
qed



text \<open>
  Claim C1.  \<open>pgvictoria_query_execute\<close> is to classify every accumulated reply stream
  that ends with a \<open>Z\<close> frame, and with a \<open>T\<close> frame and no \<open>E\<close> frame to return the
  column names of the \<open>T\<close> frame.  The loop that copies the names runs to the column
  count of the frame, and nothing bounds its index by the rows of \<open>names\<close>: for every
  reply of well-formed frames without an \<open>E\<close> frame, delivered in any number of pieces of
  whole frames, whose first \<open>T\<close> frame has more than \<open>MAX_NUMBER_OF_COLUMNS\<close> columns,
  the executor copies a name behind the table and returns no response.  The witness is
  the reply to a query for nine columns.  (What it returns within the capacity of the
  table is \<open>query_execute_within_capacity\<close>, and for the exchange of the claim
  \<open>query_execute_select_1\<close>.)
\<close>

theorem query_execute_stores_behind_names:
  assumes wf: "list_all well_formed_message (delivered (chunks @ [(k, ms)]))"
    and len: "length (reply_stream (delivered (chunks @ [(k, ms)]))) < 2 ^ 64"
    and nz: "chr CHR ''Z'' \<notin> message_tag ` set (delivered chunks)"
    and z: "chr CHR ''Z'' \<in> message_tag ` set ms"
    and noE: "chr CHR ''E'' \<notin> message_tag ` set (delivered (chunks @ [(k, ms)]))"
    and first: "first_row_description (delivered (chunks @ [(k, ms)])) = Some cols"
    and wide: "MAX_NUMBER_OF_COLUMNS < length cols"
  shows "pgvictoria_query_execute True (reads_of (chunks @ [(k, ms)]) @ rest) = Some None"
  using query_execute_chunks[OF wf len nz z, of rest]
    classify_row_description[OF wf len noE first]
    row_description_response_behind_names[OF wf len first wide]
  by simp


theorem query_execute_stores_behind_names_witness:
  "list_all well_formed_message
     (delivered ([(0, [RowDescription nine_columns])] @ [(1, nine_columns_row)]))
   \<and> length (reply_stream
         (delivered ([(0, [RowDescription nine_columns])] @ [(1, nine_columns_row)]))) < 2 ^ 64
   \<and> chr CHR ''Z'' \<notin> message_tag ` set (delivered [(0, [RowDescription nine_columns])])
   \<and> chr CHR ''Z'' \<in> message_tag ` set nine_columns_row
   \<and> chr CHR ''E'' \<notin> message_tag `
         set (delivered ([(0, [RowDescription nine_columns])] @ [(1, nine_columns_row)]))
   \<and> first_row_description
         (delivered ([(0, [RowDescription nine_columns])] @ [(1, nine_columns_row)]))
       = Some nine_columns
   \<and> MAX_NUMBER_OF_COLUMNS < length nine_columns
   \<and> pgvictoria_query_execute True
         [MESSAGE_STATUS_OK (reply_stream [RowDescription nine_columns]),
          MESSAGE_STATUS_ZERO,
          MESSAGE_STATUS_OK (reply_stream nine_columns_row)]
       = Some None"
proof -
  let ?chunks = "[(0::nat, [RowDescription nine_columns])]"
  have l9: "length nine_columns = 9"
    by (simp add: nine_columns_def)
  have wc: "list_all well_formed_column nine_columns"
    by (simp add: nine_columns_def example_column_def ascii_def chr_def)
  have lp: "length (concat (map column_bytes nine_columns)) = 189"
    by (simp add: nine_columns_def example_column_def length_ascii)
  have wt: "well_formed_message (RowDescription nine_columns)"
    using wc by (simp add: l9 lp well_formed_frame_def be16_def)
  have wr: "list_all well_formed_message nine_columns_row"
    by (simp add: nine_columns_row_def well_formed_frame_def be16_def length_be32 length_ascii)
  have d: "delivered (?chunks @ [(1, nine_columns_row)])
           = RowDescription nine_columns # nine_columns_row"
    by (simp add: delivered_def)
  have wf: "list_all well_formed_message (delivered (?chunks @ [(1, nine_columns_row)]))"
    unfolding d using wt wr by simp
  have len: "length (reply_stream (delivered (?chunks @ [(1, nine_columns_row)]))) < 2 ^ 64"
    unfolding d
    by (simp add: reply_stream_def stream_bytes_def frame_bytes_def be16_def length_be32
          length_ascii lp nine_columns_row_def)
  have nz: "chr CHR ''Z'' \<notin> message_tag ` set (delivered ?chunks)"
    by (simp add: delivered_def message_tag_def tag_distinct)
  have z: "chr CHR ''Z'' \<in> message_tag ` set nine_columns_row"
    by (simp add: nine_columns_row_def message_tag_def)
  have noE: "chr CHR ''E'' \<notin> message_tag ` set (delivered (?chunks @ [(1, nine_columns_row)]))"
    unfolding d by (simp add: nine_columns_row_def message_tag_def chr_def)
  have first: "first_row_description (delivered (?chunks @ [(1, nine_columns_row)]))
               = Some nine_columns"
    unfolding d by simp
  have wide: "MAX_NUMBER_OF_COLUMNS < length nine_columns"
    by (simp add: l9 MAX_NUMBER_OF_COLUMNS_def)
  have r: "reads_of (?chunks @ [(1, nine_columns_row)]) @ []
           = [MESSAGE_STATUS_OK (reply_stream [RowDescription nine_columns]),
              MESSAGE_STATUS_ZERO,
              MESSAGE_STATUS_OK (reply_stream nine_columns_row)]"
    by (simp add: reads_of_def chunk_reads_def)
  have "pgvictoria_query_execute True (reads_of (?chunks @ [(1, nine_columns_row)]) @ [])
        = Some None"
    using query_execute_stores_behind_names[OF wf len nz z noE first wide] .
  then have "pgvictoria_query_execute True
         [MESSAGE_STATUS_OK (reply_stream [RowDescription nine_columns]),
          MESSAGE_STATUS_ZERO,
          MESSAGE_STATUS_OK (reply_stream nine_columns_row)]
       = Some None"
    by (simp only: r)
  then show ?thesis
    using wf len nz z noE first wide by blast
qed


text \<open>
  Claim C2 (as amended).  In every tuple built from a DataRow frame, a column whose i32
  length field is \<open>-1\<close> yields a null cell, and so does a column whose length field is
  0; a column of positive length yields a non-null buffer holding the value and a
  terminating NUL.  The reader of the response can tell a non-empty value from NULL, not
  an empty value from NULL.
\<close>

theorem create_D_tuple_cells:
  assumes "list_all well_formed_cell cells"
  shows "\<exists>t. create_D_tuple (int (length cells))
               \<lparr>kind = chr CHR ''D'',
                mlength = length (frame_bytes (message_frame (DataRow cells))),
                data = frame_bytes (message_frame (DataRow cells))\<rparr> = Some t
             \<and> length t = length cells
             \<and> (\<forall>i<length cells.
                   t ! i = (case cells ! i of
                              None \<Rightarrow> None
                            | Some v \<Rightarrow> if v = [] then None else Some (v @ [0])))"
proof -
  have "\<forall>i<length cells.
          map built_cell cells ! i
          = (case cells ! i of None \<Rightarrow> None | Some v \<Rightarrow> if v = [] then None else Some (v @ [0]))"
    by (simp split: option.split)
  then show ?thesis
    using create_D_tuple_frame[OF assms] by simp
qed

theorem create_D_tuple_cells_witness:
  "list_all well_formed_cell [None, Some [], Some (ascii ''1'')]
   \<and> frame_bytes (message_frame (DataRow [None, Some [], Some (ascii ''1'')]))
       = [68, 0,0,0,19, 0,3, 255,255,255,255, 0,0,0,0, 0,0,0,1, 49]
   \<and> create_D_tuple 3
         \<lparr>kind = 68, mlength = 20,
          data = [68, 0,0,0,19, 0,3, 255,255,255,255, 0,0,0,0, 0,0,0,1, 49]\<rparr>
       = Some [None, None, Some [49, 0]]"
proof -
  let ?cells = "[None, Some [], Some (ascii ''1'')]"
  have wf: "list_all well_formed_cell ?cells" by (simp add: length_ascii)
  have b: "frame_bytes (message_frame (DataRow ?cells))
           = [68, 0,0,0,19, 0,3, 255,255,255,255, 0,0,0,0, 0,0,0,1, 49]"
    by (simp add: frame_bytes_def be16_def be32_minus_1 ascii_def chr_def) (simp add: be32_def)
  obtain t where t: "create_D_tuple (int (length ?cells))
               \<lparr>kind = chr CHR ''D'',
                mlength = length (frame_bytes (message_frame (DataRow ?cells))),
                data = frame_bytes (message_frame (DataRow ?cells))\<rparr> = Some t"
      and l: "length t = length ?cells"
      and c: "\<forall>i<length ?cells.
                   t ! i = (case ?cells ! i of
                              None \<Rightarrow> None
                            | Some v \<Rightarrow> if v = [] then None else Some (v @ [0]))"
    using create_D_tuple_cells[OF wf] by blast
  have "t ! 0 = None" "t ! 1 = None" "t ! 2 = Some [49, 0]"
    using c by (simp_all add: ascii_def chr_def)
  then have "t = [None, None, Some [49, 0]]"
    using l by (intro nth_equalityI) (auto simp add: less_Suc_eq numeral_3_eq_3 numeral_2_eq_2)
  then have t': "t = [None, None, Some [49, 0]]" .
  have l20: "length (frame_bytes (message_frame (DataRow ?cells))) = 20"
    by (simp only: b) simp
  have "create_D_tuple (int (length ?cells))
               \<lparr>kind = chr CHR ''D'', mlength = 20,
                data = frame_bytes (message_frame (DataRow ?cells))\<rparr> = Some t"
    using t by (simp only: l20)
  then have "create_D_tuple 3
         \<lparr>kind = 68, mlength = 20,
          data = [68, 0,0,0,19, 0,3, 255,255,255,255, 0,0,0,0, 0,0,0,1, 49]\<rparr>
       = Some [None, None, Some [49, 0]]"
    by (simp only: b t') (simp add: chr_def)
  then show ?thesis
    using wf b by blast
qed

theorem null_and_empty_cell_counterexample:
  "create_D_tuple 1 \<lparr>kind = 68, mlength = 11, data = [68, 0,0,0,10, 0,1, 0,0,0,0]\<rparr>
     = Some [None]
   \<and> create_D_tuple 1 \<lparr>kind = 68, mlength = 11, data = [68, 0,0,0,10, 0,1, 255,255,255,255]\<rparr>
     = Some [None]"
proof -
  have b0: "frame_bytes (message_frame (DataRow [Some []])) = [68, 0,0,0,10, 0,1, 0,0,0,0]"
    by (simp add: frame_bytes_def be16_def be32_def chr_def)
  have b1: "frame_bytes (message_frame (DataRow [None])) = [68, 0,0,0,10, 0,1, 255,255,255,255]"
    by (simp add: frame_bytes_def be16_def be32_minus_1 chr_def) (simp add: be32_def)
  have "create_D_tuple (int (length [Some ([]::byte list)]))
          \<lparr>kind = 68, mlength = 11, data = frame_bytes (message_frame (DataRow [Some []]))\<rparr>
        = Some (map built_cell [Some []])"
    by (rule create_D_tuple_frame) simp
  moreover have "create_D_tuple (int (length [None :: byte list option]))
          \<lparr>kind = 68, mlength = 11, data = frame_bytes (message_frame (DataRow [None]))\<rparr>
        = Some (map built_cell [None])"
    by (rule create_D_tuple_frame) simp
  ultimately show ?thesis
    unfolding b0 b1 by simp
qed


text \<open>
  Claim C6.  \<open>transfer_configuration\<close> is to report \<open>changed = true\<close> whenever a field
  of the restart-required set differs, the pid file among them when the new one is not
  empty.  For the pid file it does not: \<open>restart_string\<close> is called and logs that a
  restart is required, and its result is dropped.  The theorem runs the transfer on a
  reload that differs from the live configuration in \<open>pidfile\<close> only.  (What holds of
  the other fields is \<open>transfer_configuration_changed\<close> and
  \<open>transfer_configuration_log_level_only\<close>.)
\<close>

theorem transfer_configuration_pidfile_ignored:
  "transfer_configuration example_configuration
     (example_configuration\<lparr>pidfile := ''/run/pgvictoria/b.pid''\<rparr>)
   = (False, example_configuration, [Restart_required ''pidfile''])"
proof -
  have "''/run/pgvictoria/b.pid'' \<noteq> pidfile example_configuration"
    by (simp add: example_configuration_def)
  then show ?thesis
    by (intro transfer_configuration_pidfile) simp_all
qed

theorem transfer_configuration_pidfile_ignored_witness:
  "pidfile (example_configuration\<lparr>pidfile := ''/run/pgvictoria/b.pid''\<rparr>) \<noteq> []
   \<and> pidfile (example_configuration\<lparr>pidfile := ''/run/pgvictoria/b.pid''\<rparr>)
       \<noteq> pidfile example_configuration
   \<and> fst (transfer_configuration example_configuration
            (example_configuration\<lparr>pidfile := ''/run/pgvictoria/b.pid''\<rparr>)) = False
   \<and> snd (snd (transfer_configuration example_configuration
            (example_configuration\<lparr>pidfile := ''/run/pgvictoria/b.pid''\<rparr>)))
       = [Restart_required ''pidfile'']"
  using transfer_configuration_pidfile_ignored by (simp add: example_configuration_def)

text \<open>
  Claim C7.  A users file with more than \<open>NUMBER_OF_USERS\<close> valid lines is to be
  refused with status 3.  The count is compared with the limit only after the last
  line, and nothing bounds the index of a store: whenever the file can be opened, the
  master key is at hand, every line is skipped or an entry, and more than
  \<open>NUMBER_OF_USERS\<close> of the entries pass the length test, the loop has stored behind the
  \<open>users\<close> array by the time the limit is tested, and the function ends with a
  configuration whose content is not determined.  (What it returns when the file cannot
  be opened, 1, and when the master key is missing, 2, is
  \<open>read_users_file_or_key_missing\<close>.)
\<close>

theorem read_users_limit_tested_after_the_stores:
  assumes "list_all (acceptable_line lib base64_decode mk) (fgets_lines [] content)"
    and "NUMBER_OF_USERS
         < length (filter (stored_line lib base64_decode mk) (fgets_lines [] content))"
  shows "\<exists>status stores.
           pgvictoria_read_users_configuration lib base64_decode (Some mk) (Some content) config
           = Some (status, None, stores)
           \<and> \<not> list_all (\<lambda>index. index < NUMBER_OF_USERS) stores"
proof -
  let ?lines = "fgets_lines [] content"
  have "0 < length (filter (stored_line lib base64_decode mk) ?lines)
        \<and> NUMBER_OF_USERS < 0 + length (filter (stored_line lib base64_decode mk) ?lines)"
    using assms(2) by (cases "filter (stored_line lib base64_decode mk) ?lines") simp_all
  then obtain index' stores' where
    r: "read_user_lines lib base64_decode mk ?lines (0, Some (users config), [])
        = Some (False, index', None, stores')"
    and s: "\<not> list_all (\<lambda>i. i < NUMBER_OF_USERS) stores'"
    using read_user_lines_behind_the_array[OF assms(1), of "Some (users config)" "[]" 0]
    by blast
  show ?thesis
    using s by (simp add: pgvictoria_read_users_configuration_def r Let_def)
qed

theorem read_users_limit_tested_after_the_stores_witness:
  "list_all (acceptable_line example_evp example_base64_decode (ascii ''topsecret''))
     (fgets_lines [] (example_users_file 100))
   \<and> NUMBER_OF_USERS
       < length (filter (stored_line example_evp example_base64_decode (ascii ''topsecret''))
                   (fgets_lines [] (example_users_file 100)))
   \<and> (\<exists>status stores.
         pgvictoria_read_users_configuration example_evp example_base64_decode
           (Some (ascii ''topsecret'')) (Some (example_users_file 100)) example_configuration
         = Some (status, None, stores)
         \<and> \<not> list_all (\<lambda>index. index < NUMBER_OF_USERS) stores)"
proof -
  have a: "list_all (acceptable_line example_evp example_base64_decode (ascii ''topsecret''))
             (fgets_lines [] (example_users_file 100))"
    unfolding fgets_lines_example by (rule example_lines_acceptable)
  have b: "NUMBER_OF_USERS
           < length (filter (stored_line example_evp example_base64_decode (ascii ''topsecret''))
                       (fgets_lines [] (example_users_file 100)))"
    unfolding fgets_lines_example example_lines_stored by (simp add: NUMBER_OF_USERS_def)
  show ?thesis
    using a b read_users_limit_tested_after_the_stores[OF a b, of example_configuration]
    by blast
qed

text \<open>
  Claim C10.  Every store into \<open>users\<close> is to target an index below
  \<open>NUMBER_OF_USERS\<close>.  The loop checks the count only after the last line: on a file of
  65 valid entries it stores at the indices 0 to 64, the last one beyond the array, and
  then returns 3.
\<close>

theorem read_users_store_beyond_capacity:
  "map_option (\<lambda>(status, config, stores). (status, stores))
     (pgvictoria_read_users_configuration example_evp example_base64_decode
        (Some (ascii ''topsecret'')) (Some (example_users_file 65)) example_configuration)
   = Some (3, [0..<65])
   \<and> \<not> list_all (\<lambda>index. index < NUMBER_OF_USERS) [0..<65]"
proof -
  obtain us' where
    r: "read_user_lines example_evp example_base64_decode (ascii ''topsecret'')
          (replicate 65 ''u:xy\<newline>'') (0, Some (users example_configuration), [])
        = Some (False, 0 + 65, us', [] @ [0..<0 + 65])"
    using read_user_lines_replicate[OF example_user_line, of 65 0
        "Some (users example_configuration)" "[]"]
    by (auto simp add: MAX_USERNAME_LENGTH_def MAX_PASSWORD_LENGTH_def)
  have "map_option (\<lambda>(status, config, stores). (status, stores))
     (pgvictoria_read_users_configuration example_evp example_base64_decode
        (Some (ascii ''topsecret'')) (Some (example_users_file 65)) example_configuration)
   = Some (3, [0..<65])"
    unfolding pgvictoria_read_users_configuration_def
    by (simp add: fgets_lines_example r NUMBER_OF_USERS_def Let_def
          del: replicate.simps upt.simps)
  moreover have "\<not> list_all (\<lambda>index. index < NUMBER_OF_USERS) [0..<65]"
    by (simp add: list_all_iff NUMBER_OF_USERS_def Bex_def) (rule exI[of _ 64], simp)
  ultimately show ?thesis by blast
qed



text \<open>
  Claim C8 (as amended).  For every encryption mode and every byte buffer \<open>b\<close> for which
  the buffer that the encryption allocates (\<open>origin_size\<close>, one cipher block and one
  byte) has fewer than \<open>2^31\<close> bytes: when \<open>pgvictoria_encrypt_buffer\<close> returns 0 with a
  buffer and a size, then \<open>pgvictoria_decrypt_buffer\<close>, given the bytes of that size under
  the same master key and mode, returns 0, reports the size of \<open>b\<close>, its buffer begins
  with \<open>b\<close>, and holds one more byte than its input, with a NUL stored right behind the
  reported size.  The cipher library is a parameter; what is asked of it
  (\<open>evp_round_trip\<close>) is that a context initialised for decryption with the cipher, key
  and IV of a successful encryption gives back the input of that encryption and that a
  ciphertext is not shorter than its plaintext.  The six modes need the same cipher and
  key at both ends: the three CTR modes are run with AES-256-CBC and the key derived for
  the CTR cipher, in both directions.

  Without the bound the claim fails: \<open>origin_size\<close> reaches the library as an \<open>int\<close>.  Of
  a buffer of \<open>2^32 + 6\<close> bytes the library is handed the first 6; the encryption
  returns 0 with 7 bytes, and their decryption returns 0 with 6 bytes.
\<close>

theorem encrypt_decrypt_buffer_identity:
  assumes "evp_round_trip lib"
    and "pgvictoria_encrypt_buffer lib master_key fresh b mode = Some (Inr (enc_buffer, enc_size))"
    and "length enc_buffer < 2 ^ 31"
  shows "\<exists>dec_buffer.
           pgvictoria_decrypt_buffer lib master_key fresh' (take enc_size enc_buffer) mode
             = Some (Inr (dec_buffer, length b))
           \<and> take (length b) dec_buffer = b
           \<and> dec_buffer ! length b = 0
           \<and> length dec_buffer = enc_size + 1"
proof -
  obtain c mk key iv ctx ctx' u f where
    c: "get_cipher_buffer mode = Some c" and mk: "master_key = Some mk"
    and d: "derive_key_iv lib mk mode = Some (key, iv)"
    and i: "cipher_init lib c key iv True = Some ctx"
    and up: "EVP_CipherUpdate lib ctx b = Some (ctx', u)"
    and fi: "EVP_CipherFinal_ex lib ctx' = Some f"
    and n: "enc_size = length u + length f" and t: "take enc_size enc_buffer = u @ f"
    and fits: "enc_size \<le> length enc_buffer"
    using encrypt_decrypt_buffer_Inr[OF assms(2)[unfolded pgvictoria_encrypt_buffer_def] assms(3)]
    by auto
  have "length b \<le> length (u @ f)
        \<and> (\<exists>dctx dctx' u' f'.
              EVP_CipherInit_ex lib c (take (EVP_CIPHER_key_length lib c) key)
                (take (EVP_CIPHER_iv_length lib c) iv) False = Some dctx
              \<and> EVP_CipherUpdate lib dctx (u @ f) = Some (dctx', u')
              \<and> EVP_CipherFinal_ex lib dctx' = Some f'
              \<and> u' @ f' = b)"
    using assms(1)[unfolded evp_round_trip_def] i[unfolded cipher_init_def] up fi by blast
  then obtain dctx dctx' u' f' where
    le: "length b \<le> length (u @ f)"
    and di: "cipher_init lib c key iv ((0::int) \<noteq> 0) = Some dctx"
    and dup: "EVP_CipherUpdate lib dctx (u @ f) = Some (dctx', u')"
    and dfi: "EVP_CipherFinal_ex lib dctx' = Some f'"
    and b: "u' @ f' = b"
    unfolding cipher_init_def by auto
  have lb: "length u' + length f' = length b"
    using b by (metis length_append)
  have small: "length (u @ f) < 2 ^ 31"
    using n fits assms(3) by simp
  have inl: "int_of_size_t (length (u @ f)) = int (length (u @ f))"
    using small by (rule int_of_size_t_small)
  have dup': "EVP_CipherUpdate lib dctx (take (length (u @ f)) (u @ f)) = Some (dctx', u')"
    using dup by simp
  have le': "length u' + length f'
             \<le> (if (0::int) = 1 then length (u @ f) + EVP_CIPHER_block_size lib c
                 else length (u @ f))"
    using le lb by simp
  have lu': "length u' < 2 ^ 32" and lf': "length f' < 2 ^ 32"
    using lb le small by simp_all
  obtain buf where
    "encrypt_decrypt_buffer lib (Some mk) fresh' (u @ f) 0 mode
       = Some (Inr (buf, length u' + length f'))"
    "take (length u' + length f') buf = u' @ f'"
    "buf ! (length u' + length f') = 0"
    "length buf = length (u @ f) + 1"
    using encrypt_decrypt_buffer_result[OF c d di inl dup' dfi le' lu' lf', of fresh'] by auto
  then show ?thesis
    using lb b mk t n by (intro exI[of _ buf]) (simp add: pgvictoria_decrypt_buffer_def)
qed

theorem encrypt_decrypt_buffer_identity_witness:
  "evp_round_trip example_evp
   \<and> pgvictoria_encrypt_buffer example_evp (Some (ascii ''topsecret'')) (\<lambda>i. 170)
         (ascii ''secret'') ENCRYPTION_AES_256_CTR
       = Some (Inr ([116, 102, 100, 115, 102, 117, 16,
                     170, 170, 170, 170, 170, 170, 170, 170,
                     170, 170, 170, 170, 170, 170, 170, 170], 7))
   \<and> length [116, 102, 100, 115, 102, 117, 16,
              170, 170, 170, 170, 170, 170, 170, 170,
              170, 170, 170, 170, 170, 170, 170, 170 :: byte] < 2 ^ 31
   \<and> (\<exists>dec_buffer.
         pgvictoria_decrypt_buffer example_evp (Some (ascii ''topsecret'')) (\<lambda>i. 85)
           [116, 102, 100, 115, 102, 117, 16] ENCRYPTION_AES_256_CTR
           = Some (Inr (dec_buffer, 6))
         \<and> take 6 dec_buffer = ascii ''secret''
         \<and> dec_buffer ! 6 = 0
         \<and> length dec_buffer = 8)"
proof -
  let ?enc = "[116, 102, 100, 115, 102, 117, 16,
               170, 170, 170, 170, 170, 170, 170, 170,
               170, 170, 170, 170, 170, 170, 170, 170] :: byte list"
  have e: "pgvictoria_encrypt_buffer example_evp (Some (ascii ''topsecret'')) (\<lambda>i. 170)
             (ascii ''secret'') ENCRYPTION_AES_256_CTR = Some (Inr (?enc, 7))"
    by (simp add: pgvictoria_encrypt_buffer_def encrypt_decrypt_buffer_def get_cipher_buffer_def
          derive_key_iv_def cipher_init_def example_evp_def write_bytes_def ascii_def chr_def
          ENCRYPTION_AES_256_CTR_def ENCRYPTION_AES_256_CBC_def ENCRYPTION_AES_192_CBC_def
          ENCRYPTION_AES_128_CBC_def map_replicate_const
          int_of_size_t_small size_t_of_int_store_small)
       (simp add: numeral_eq_Suc)
  have s: "length ?enc < 2 ^ 31"
    by simp
  have l: "length (ascii ''secret'') = 6"
    by (simp add: length_ascii)
  have t: "take 7 ?enc = [116, 102, 100, 115, 102, 117, 16]"
    by simp
  show ?thesis
    using encrypt_decrypt_buffer_identity[OF example_evp_round_trip e s, of "\<lambda>i. 85"] e
      example_evp_round_trip
    by (simp only: l t) simp
qed

theorem encrypt_buffer_narrowed_size_counterexample:
  "\<exists>enc_buffer dec_buffer.
     pgvictoria_encrypt_buffer example_evp (Some (ascii ''topsecret'')) (\<lambda>i. 170)
       (replicate (2 ^ 32 + 6) 1) ENCRYPTION_AES_256_CBC
     = Some (Inr (enc_buffer, 7))
     \<and> take 7 enc_buffer = [2, 2, 2, 2, 2, 2, 16]
     \<and> pgvictoria_decrypt_buffer example_evp (Some (ascii ''topsecret'')) (\<lambda>i. 85)
         (take 7 enc_buffer) ENCRYPTION_AES_256_CBC
       = Some (Inr (dec_buffer, 6))
     \<and> take 6 dec_buffer = [1, 1, 1, 1, 1, 1]
     \<and> length (replicate (2 ^ 32 + 6) (1::byte)) = 4294967302"
proof -
  let ?mk = "ascii ''topsecret''"
  let ?b = "replicate (2 ^ 32 + 6) (1::byte)"
  let ?key = "take EVP_MAX_KEY_LENGTH
                (take 32 (?mk @ replicate 32 0) @ replicate (EVP_MAX_KEY_LENGTH - 32) 0)"
  have c: "get_cipher_buffer ENCRYPTION_AES_256_CBC = Some EVP_aes_256_cbc"
    by (simp add: get_cipher_buffer_def)
  obtain key iv where d: "derive_key_iv example_evp ?mk ENCRYPTION_AES_256_CBC = Some (key, iv)"
    by (simp add: derive_key_iv_def example_evp_def)
  have i1: "cipher_init example_evp EVP_aes_256_cbc key iv ((1::int) \<noteq> 0) = Some True"
    by (simp add: cipher_init_def example_evp_def)
  have i0: "cipher_init example_evp EVP_aes_256_cbc key iv ((0::int) \<noteq> 0) = Some False"
    by (simp add: cipher_init_def example_evp_def)
  have inl1: "int_of_size_t (length ?b) = int 6"
    by (simp add: int_of_size_t_def)
  have r6: "replicate 6 (1::byte) = [1, 1, 1, 1, 1, 1]"
    by (simp add: numeral_eq_Suc)
  have tk: "take 6 ?b = replicate 6 1"
    by simp
  have up1: "EVP_CipherUpdate example_evp True (take 6 ?b) = Some (True, [2, 2, 2, 2, 2, 2])"
    by (simp only: tk r6) (simp add: example_evp_def)
  have fi1: "EVP_CipherFinal_ex example_evp True = Some [16]"
    by (simp add: example_evp_def)
  obtain enc_buffer where
    e: "encrypt_decrypt_buffer example_evp (Some ?mk) (\<lambda>i. 170) ?b 1 ENCRYPTION_AES_256_CBC
        = Some (Inr (enc_buffer, length [2, 2, 2, 2, 2, 2 :: byte] + length [16 :: byte]))"
    and te: "take (length [2, 2, 2, 2, 2, 2 :: byte] + length [16 :: byte]) enc_buffer
             = [2, 2, 2, 2, 2, 2] @ [16]"
    using encrypt_decrypt_buffer_result[OF c d i1 inl1 up1 fi1, of "\<lambda>i. 170"] by auto
  have n7: "length [2, 2, 2, 2, 2, 2 :: byte] + length [16 :: byte] = 7"
    by simp
  have te': "take 7 enc_buffer = [2, 2, 2, 2, 2, 2, 16]"
    using te unfolding n7 by (simp only: append_Cons append_Nil)
  have inl0: "int_of_size_t (length [2, 2, 2, 2, 2, 2, 16 :: byte]) = int 7"
    by (simp add: int_of_size_t_def)
  have up0: "EVP_CipherUpdate example_evp False (take 7 [2, 2, 2, 2, 2, 2, 16])
             = Some (False, [1, 1, 1, 1, 1, 1])"
    by (simp add: example_evp_def)
  have fi0: "EVP_CipherFinal_ex example_evp False = Some []"
    by (simp add: example_evp_def)
  obtain dec_buffer where
    dd: "encrypt_decrypt_buffer example_evp (Some ?mk) (\<lambda>i. 85) [2, 2, 2, 2, 2, 2, 16] 0
           ENCRYPTION_AES_256_CBC
         = Some (Inr (dec_buffer, length [1, 1, 1, 1, 1, 1 :: byte] + length ([] :: byte list)))"
    and td: "take (length [1, 1, 1, 1, 1, 1 :: byte] + length ([] :: byte list)) dec_buffer
             = [1, 1, 1, 1, 1, 1] @ []"
    using encrypt_decrypt_buffer_result[OF c d i0 inl0 up0 fi0, of "\<lambda>i. 85"] by auto
  have n6: "length [1, 1, 1, 1, 1, 1 :: byte] + length ([] :: byte list) = 6"
    by simp
  have "pgvictoria_encrypt_buffer example_evp (Some ?mk) (\<lambda>i. 170) ?b ENCRYPTION_AES_256_CBC
        = Some (Inr (enc_buffer, 7))"
    using e unfolding n7 by (simp only: pgvictoria_encrypt_buffer_def)
  moreover have "pgvictoria_decrypt_buffer example_evp (Some ?mk) (\<lambda>i. 85) (take 7 enc_buffer)
                   ENCRYPTION_AES_256_CBC = Some (Inr (dec_buffer, 6))"
    using dd unfolding n6 by (simp only: pgvictoria_decrypt_buffer_def te')
  moreover have "take 6 dec_buffer = [1, 1, 1, 1, 1, 1]"
    using td unfolding n6 by (simp only: append_Nil2)
  moreover have "length ?b = 4294967302"
    by simp
  ultimately show ?thesis
    using te' by blast
qed

text \<open>
  Claim C9.  Whenever the source file exists, \<open>pgvictoria_encrypt_file\<close> and
  \<open>pgvictoria_decrypt_file\<close> return 0 and the source file is gone afterwards, whatever
  the cipher library, the master key and the target do: the status of \<open>encrypt_file\<close> is
  not looked at.  In the witness the master key is missing, \<open>encrypt_file\<close> returns 1,
  and the source is deleted all the same.
\<close>

theorem file_source_deleted_whatever_the_cipher_does:
  assumes "pgvictoria_exists files from"
  shows "fst (pgvictoria_encrypt_file lib master_key writable files from to) = 0
         \<and> \<not> pgvictoria_exists (snd (pgvictoria_encrypt_file lib master_key writable files from to)) from
         \<and> fst (pgvictoria_decrypt_file lib master_key writable files from to) = 0
         \<and> \<not> pgvictoria_exists (snd (pgvictoria_decrypt_file lib master_key writable files from to)) from"
proof -
  have e: "fst (pgvictoria_encrypt_file lib master_key writable files from to) = 0
           \<and> \<not> pgvictoria_exists (snd (pgvictoria_encrypt_file lib master_key writable files from to)) from"
    using assms deleted_after
    by (simp add: pgvictoria_encrypt_file_def Let_def split: prod.split)
  obtain t where t: "(case to of None \<Rightarrow> pgvictoria_strip_extension from | Some t \<Rightarrow> Some t) = Some t"
    using strip_extension_succeeds[of "from"] by (cases to) auto
  have d: "fst (pgvictoria_decrypt_file lib master_key writable files from to) = 0
           \<and> \<not> pgvictoria_exists (snd (pgvictoria_decrypt_file lib master_key writable files from to)) from"
    using assms deleted_after
    by (simp add: pgvictoria_decrypt_file_def t Let_def split: prod.split)
  show ?thesis using e d by blast
qed

theorem file_source_deleted_whatever_the_cipher_does_witness:
  "pgvictoria_exists [''/data/base.tar'' \<mapsto> ascii ''abc''] ''/data/base.tar''
   \<and> fst (encrypt_file example_evp None (\<lambda>f. True) [''/data/base.tar'' \<mapsto> ascii ''abc'']
           ''/data/base.tar'' ''/data/base.tar.aes'' 1) = 1
   \<and> fst (pgvictoria_encrypt_file example_evp None (\<lambda>f. True) [''/data/base.tar'' \<mapsto> ascii ''abc'']
           ''/data/base.tar'' None) = 0
   \<and> \<not> pgvictoria_exists
         (snd (pgvictoria_encrypt_file example_evp None (\<lambda>f. True)
                 [''/data/base.tar'' \<mapsto> ascii ''abc''] ''/data/base.tar'' None))
         ''/data/base.tar''
   \<and> fst (pgvictoria_decrypt_file example_evp None (\<lambda>f. True) [''/data/base.tar'' \<mapsto> ascii ''abc'']
           ''/data/base.tar'' None) = 0
   \<and> \<not> pgvictoria_exists
         (snd (pgvictoria_decrypt_file example_evp None (\<lambda>f. True)
                 [''/data/base.tar'' \<mapsto> ascii ''abc''] ''/data/base.tar'' None))
         ''/data/base.tar''"
proof -
  have ex: "pgvictoria_exists [''/data/base.tar'' \<mapsto> ascii ''abc''] ''/data/base.tar''"
    by (simp add: pgvictoria_exists_def)
  have st: "fst (encrypt_file example_evp None (\<lambda>f. True) [''/data/base.tar'' \<mapsto> ascii ''abc'']
           ''/data/base.tar'' ''/data/base.tar.aes'' 1) = 1"
    by (simp add: encrypt_file_def)
  show ?thesis
    using ex st file_source_deleted_whatever_the_cipher_does[OF ex, of example_evp None "\<lambda>f. True" None]
    by blast
qed


end
